theory Spec2Isabelle
  imports Complex_Main "HOL-Library.FSet" "HOL-Library.Finite_Map"
    "HOL-Library.Char_ord" "HOL-Library.List_Lexorder" "HOL-Library.Multiset"
begin

section \<open>Python exceptions\<close>

text \<open>
  A raised exception is a value: every function of the model that can raise returns
  \<open>error + 'a\<close>, with \<open>Inl\<close> for the exception. The constructors are the exception
  classes the modelled code raises itself; \<open>Raised\<close> stands for any other exception
  class, as raised by code that is called but not modelled (an imported module, a
  factory).
\<close>

datatype error =
    ValueError string
  | TypeError string
  | KeyError string
  | AttributeError string
  | ModuleNotFoundError string
  | Raised string

definition bind_err :: "error + 'a \<Rightarrow> ('a \<Rightarrow> error + 'b) \<Rightarrow> error + 'b" where
  "bind_err r f = (case r of Inl e \<Rightarrow> Inl e | Inr x \<Rightarrow> f x)"


section \<open>The entrypoint decorator (libs/langgraph/langgraph/func/__init__.py)\<close>

text \<open>
  What \<open>entrypoint\<close> reads of the decorated function is its name, whether it is a
  generator or an async generator function, and its signature: the parameters in order
  and the return annotation. A parameter (\<open>inspect.Parameter\<close>) has a name, a kind,
  a default or none, and an annotation. An annotation is \<open>inspect.Signature.empty\<close>
  (here \<open>SigEmpty\<close>), \<open>typing.Any\<close> or any other annotation object, kept by its
  name.
\<close>

datatype annotation = SigEmpty | AnyType | Named string

datatype func_kind = PlainFunction | GeneratorFunction | AsyncGenFunction

datatype param_kind =
    POSITIONAL_ONLY
  | POSITIONAL_OR_KEYWORD
  | VAR_POSITIONAL
  | KEYWORD_ONLY
  | VAR_KEYWORD

record parameter =
  param_name :: string
  param_kind :: param_kind
  param_has_default :: bool
  param_annotation :: annotation

record pyfunc =
  func_name :: string
  func_kind :: func_kind
  parameters :: "parameter list"
  return_annotation :: annotation

text \<open>
  The kinds are the members of an \<open>IntEnum\<close>, compared by their values, and each has
  the description the error messages of \<open>inspect\<close> print.
\<close>

fun kind_value :: "param_kind \<Rightarrow> nat" where
  "kind_value POSITIONAL_ONLY = 0"
| "kind_value POSITIONAL_OR_KEYWORD = 1"
| "kind_value VAR_POSITIONAL = 2"
| "kind_value KEYWORD_ONLY = 3"
| "kind_value VAR_KEYWORD = 4"

fun kind_description :: "param_kind \<Rightarrow> string" where
  "kind_description POSITIONAL_ONLY = ''positional-only''"
| "kind_description POSITIONAL_OR_KEYWORD = ''positional or keyword''"
| "kind_description VAR_POSITIONAL = ''variadic positional''"
| "kind_description KEYWORD_ONLY = ''keyword-only''"
| "kind_description VAR_KEYWORD = ''variadic keyword''"

text \<open>
  \<open>Signature.replace(parameters=...)\<close> builds a new \<open>Signature\<close>, whose
  constructor checks the parameters one after the other (the loop of
  \<open>inspect.Signature.__init__\<close>, standard library): a parameter of a kind below
  the highest kind met so far, a positional parameter without a default after one with
  a default, and a name met before each raise ValueError. \<open>top_kind\<close>,
  \<open>seen_default\<close> and \<open>params\<close> are the loop's variables.
\<close>

fun validate_parameters ::
  "param_kind \<Rightarrow> bool \<Rightarrow> string list \<Rightarrow> parameter list \<Rightarrow> error + parameter list" where
  "validate_parameters top_kind seen_default params [] = Inr []"
| "validate_parameters top_kind seen_default params (p # ps) =
     (if kind_value (param_kind p) < kind_value top_kind
      then Inl (ValueError (''wrong parameter order: '' @ kind_description top_kind @
                  '' parameter before '' @ kind_description (param_kind p) @ '' parameter''))
      else if param_kind p \<in> {POSITIONAL_ONLY, POSITIONAL_OR_KEYWORD}
              \<and> \<not> param_has_default p \<and> seen_default
      then Inl (ValueError ''non-default argument follows default argument'')
      else if param_name p \<in> set params
      then Inl (ValueError (''duplicate parameter name: '' @ [CHR 0x27] @ param_name p @
                  [CHR 0x27]))
      else map_sum id (Cons p)
             (validate_parameters (param_kind p)
                (seen_default \<or> (param_kind p \<in> {POSITIONAL_ONLY, POSITIONAL_OR_KEYWORD}
                                  \<and> param_has_default p))
                (params @ [param_name p]) ps))"

definition signature_replace :: "parameter list \<Rightarrow> error + parameter list" where
  "signature_replace new_params = validate_parameters POSITIONAL_ONLY False [] new_params"

text \<open>
  The callable handed to \<open>get_runnable_for_func\<close>: the function itself, or the
  wrapper around a generator function. The wrapper either passes \<open>writer\<close> on (the
  function has a parameter of that name, whatever its annotation) or keeps it and
  carries the signature extended by a keyword-only \<open>writer\<close> parameter.
\<close>

datatype wrapped =
    Direct pyfunc
  | GenWrapper pyfunc bool "parameter list"
  | AGenWrapper pyfunc bool "parameter list"

datatype stream_mode = Custom | Updates

datatype channel =
    EphemeralValue annotation
  | LastValue annotation string

record 'r pregel_node =
  bound :: 'r
  triggers :: "string list"
  channels_read :: "string list"
  writers :: "(string list \<times> string list) list"

record ('r, 'c, 's, 't) pregel =
  nodes :: "string \<rightharpoonup> 'r pregel_node"
  channels :: "string \<rightharpoonup> channel"
  input_channels :: string
  output_channels :: string
  stream_channels :: string
  pregel_stream_mode :: stream_mode
  stream_eager :: bool
  checkpointer :: "'c option"
  store :: "'s option"
  config_type :: "'t option"

text \<open>
  \<open>START\<close>, \<open>END\<close> and \<open>TAG_HIDDEN\<close> come from \<open>langgraph.constants\<close> and
  \<open>get_runnable_for_func\<close> from \<open>langgraph.pregel.call\<close>; neither module is among
  the sources, so the three constants and the function are parameters of the model.
\<close>

record constants =
  START :: string
  END :: string
  TAG_HIDDEN :: string

text \<open>
  The first part of \<open>_imp\<close>: the branches on the kind of the function. For a
  generator or async generator function without a parameter named \<open>writer\<close> the
  wrapper's signature is the function's with a keyword-only parameter \<open>writer\<close>
  (which has a default) appended, made by \<open>original_sig.replace\<close>, which can raise.
\<close>

definition extra_param :: parameter where
  "extra_param =
     \<lparr> param_name = ''writer'', param_kind = KEYWORD_ONLY, param_has_default = True,
       param_annotation = SigEmpty \<rparr>"

definition wrap_func :: "pyfunc \<Rightarrow> error + wrapped \<times> stream_mode" where
  "wrap_func func =
     (case func_kind func of
        GeneratorFunction \<Rightarrow>
          (if ''writer'' \<in> set (map param_name (parameters func))
           then Inr (GenWrapper func True (parameters func), Custom)
           else bind_err (signature_replace (parameters func @ [extra_param]))
                  (\<lambda>new_sig. Inr (GenWrapper func False new_sig, Custom)))
      | AsyncGenFunction \<Rightarrow>
          (if ''writer'' \<in> set (map param_name (parameters func))
           then Inr (AGenWrapper func True (parameters func), Custom)
           else bind_err (signature_replace (parameters func @ [extra_param]))
                  (\<lambda>new_sig. Inr (AGenWrapper func False new_sig, Custom)))
      | PlainFunction \<Rightarrow> Inr (Direct func, Updates))"

text \<open>
  \<open>entrypoint(checkpointer, store, config_schema)(func)\<close>: the wrapper is made and
  handed to \<open>get_runnable_for_func\<close>, then the signature is read, and a function
  without a parameter raises.
\<close>

definition entrypoint ::
  "constants \<Rightarrow> (wrapped \<Rightarrow> 'r) \<Rightarrow> 'c option \<Rightarrow> 's option \<Rightarrow> 't option \<Rightarrow> pyfunc
     \<Rightarrow> error + ('r, 'c, 's, 't) pregel" where
  "entrypoint c get_runnable_for_func cp st config_schema func =
     bind_err (wrap_func func) (\<lambda>(w, mode).
       let b = get_runnable_for_func w
       in case parameters func of
           [] \<Rightarrow> Inl (ValueError ''Entrypoint function must have at least one parameter'')
         | first_parameter # _ \<Rightarrow>
             (let input_type = (if param_annotation first_parameter \<noteq> SigEmpty
                                then param_annotation first_parameter else AnyType);
                  output_type = (if return_annotation func \<noteq> SigEmpty
                                 then return_annotation func else AnyType)
              in Inr \<lparr> nodes = [func_name func \<mapsto>
                          \<lparr> bound = b, triggers = [START c], channels_read = [START c],
                            writers = [([END c], [TAG_HIDDEN c])] \<rparr>],
                        channels = [START c \<mapsto> EphemeralValue input_type,
                                    END c \<mapsto> LastValue output_type (END c)],
                        input_channels = START c,
                        output_channels = END c,
                        stream_channels = END c,
                        pregel_stream_mode = mode,
                        stream_eager = True,
                        checkpointer = cp,
                        store = st,
                        config_type = config_schema \<rparr>))"

text \<open>
  The type a channel was declared with, and from it the input and output type of a
  graph: the types of the channels named by \<open>input_channels\<close> and \<open>output_channels\<close>.
\<close>

fun channel_type :: "channel \<Rightarrow> annotation" where
  "channel_type (EphemeralValue t) = t"
| "channel_type (LastValue t _) = t"

definition input_type_of :: "('r, 'c, 's, 't) pregel \<Rightarrow> annotation option" where
  "input_type_of g = map_option channel_type (channels g (input_channels g))"

definition output_type_of :: "('r, 'c, 's, 't) pregel \<Rightarrow> annotation option" where
  "output_type_of g = map_option channel_type (channels g (output_channels g))"

definition or_any :: "annotation \<Rightarrow> annotation" where
  "or_any a = (if a = SigEmpty then AnyType else a)"

definition langgraph_constants :: constants where
  "langgraph_constants =
     \<lparr> START = ''__start__'', END = ''__end__'', TAG_HIDDEN = ''langsmith:hidden'' \<rparr>"

text \<open>
  A signature that \<open>inspect\<close> accepts, as the signature of every function is, and
  whether one of its parameters is \<open>**kwargs\<close>.
\<close>

definition valid_signature :: "parameter list \<Rightarrow> bool" where
  "valid_signature ps \<longleftrightarrow> signature_replace ps = Inr ps"

definition has_var_keyword :: "parameter list \<Rightarrow> bool" where
  "has_var_keyword ps \<longleftrightarrow> VAR_KEYWORD \<in> set (map param_kind ps)"

text \<open>
  The functions \<open>def f(): ...\<close>, \<open>def g(x: int, y): yield ...\<close> and
  \<open>def g_kw(x, **kw): yield x\<close>.
\<close>

definition positional :: "string \<Rightarrow> annotation \<Rightarrow> parameter" where
  "positional n a =
     \<lparr> param_name = n, param_kind = POSITIONAL_OR_KEYWORD, param_has_default = False,
       param_annotation = a \<rparr>"

definition var_keyword :: "string \<Rightarrow> parameter" where
  "var_keyword n =
     \<lparr> param_name = n, param_kind = VAR_KEYWORD, param_has_default = False,
       param_annotation = SigEmpty \<rparr>"

definition f_no_params :: pyfunc where
  "f_no_params =
     \<lparr> func_name = ''f'', func_kind = PlainFunction, parameters = [],
       return_annotation = SigEmpty \<rparr>"

definition g_two_params :: pyfunc where
  "g_two_params =
     \<lparr> func_name = ''g'', func_kind = GeneratorFunction,
       parameters = [positional ''x'' (Named ''int''), positional ''y'' SigEmpty],
       return_annotation = SigEmpty \<rparr>"

definition g_kw :: pyfunc where
  "g_kw =
     \<lparr> func_name = ''g_kw'', func_kind = GeneratorFunction,
       parameters = [positional ''x'' SigEmpty, var_keyword ''kw''],
       return_annotation = SigEmpty \<rparr>"


section \<open>The serializer (langgraph/serde/jsonplus.py)\<close>

subsection \<open>Python values\<close>

text \<open>
  The values the serializer is handed. A class is the pair of its \<open>__module__\<close> and
  its \<open>__name__\<close>. Dictionaries are keyed by strings, as the state dictionaries and
  the envelopes are, and keep their insertion order: an association list whose keys are
  distinct. A float is the rational it stands for (no NaN, no infinity). A generator
  is the finite sequence of values it has yet to yield. A set is the sequence of its
  elements in the order its iteration gives them. The remaining constructors are the
  classes \<open>_default\<close> tells apart:
  \<^item> \<open>PSerializable j\<close>: a langchain \<open>Serializable\<close> whose \<open>to_json()\<close> is \<open>j\<close>;
  \<^item> \<open>PModel c d\<close>: a pydantic model of class \<open>c\<close> whose \<open>model_dump()\<close> (or
    \<open>dict()\<close>, where the class has no \<open>model_dump\<close>) is the dictionary \<open>d\<close>;
  \<^item> \<open>PUUID n\<close>: the UUID whose 128-bit \<open>int\<close> is \<open>n\<close>;
  \<^item> \<open>PDatetime s\<close>: the datetime whose \<open>isoformat()\<close> is \<open>s\<close>;
  \<^item> \<open>PTimezone xs\<close>: the timezone whose \<open>__getinitargs__()\<close> is the tuple \<open>xs\<close>;
  \<^item> \<open>PTimedelta d s us\<close>: the timedelta of \<open>d\<close> days, \<open>s\<close> seconds, \<open>us\<close>
    microseconds;
  \<^item> \<open>PDataclass c fs\<close>: an instance of the dataclass \<open>c\<close> with the fields \<open>fs\<close>,
    in the order \<open>dataclasses.fields\<close> lists them;
  \<^item> \<open>PEnum c v\<close>: the member of the enumeration \<open>c\<close> whose \<open>value\<close> is \<open>v\<close>
    (an enumeration that does not also derive from \<open>int\<close> or \<open>str\<close>);
  \<^item> \<open>PObject c\<close>: an object of any other class \<open>c\<close>.
\<close>

type_synonym pycls = "string \<times> string"

datatype pyval =
    PNone
  | PBool bool
  | PInt int
  | PFloat rat
  | PStr string
  | PList "pyval list"
  | PTuple "pyval list"
  | PDict "(string \<times> pyval) list"
  | PGen "pyval list"
  | PSerializable pyval
  | PModel pycls "(string \<times> pyval) list"
  | PUUID nat
  | PSet "pyval list"
  | PFrozenset "pyval list"
  | PDatetime string
  | PTimezone "pyval list"
  | PTimedelta int int int
  | PDataclass pycls "(string \<times> pyval) list"
  | PEnum pycls pyval
  | PObject pycls

text \<open>
  A JSON document, as \<open>json.dumps\<close> writes it and \<open>json.loads\<close> reads it. The
  members of an object are in the order of the text. The byte string \<open>dumps\<close> returns
  is the standard library's rendering of such a document and \<open>loads\<close> parses it back;
  rendering and parsing are not modelled, so the model's wire format is the document.
\<close>

datatype json =
    JNull
  | JBool bool
  | JInt int
  | JFloat rat
  | JStr string
  | JArr "json list"
  | JObj "(string \<times> json) list"

fun class_name :: "pyval \<Rightarrow> string" where
  "class_name PNone = ''NoneType''"
| "class_name (PBool _) = ''bool''"
| "class_name (PInt _) = ''int''"
| "class_name (PFloat _) = ''float''"
| "class_name (PStr _) = ''str''"
| "class_name (PList _) = ''list''"
| "class_name (PTuple _) = ''tuple''"
| "class_name (PDict _) = ''dict''"
| "class_name (PGen _) = ''generator''"
| "class_name (PSerializable _) = ''Serializable''"
| "class_name (PModel c _) = snd c"
| "class_name (PUUID _) = ''UUID''"
| "class_name (PSet _) = ''set''"
| "class_name (PFrozenset _) = ''frozenset''"
| "class_name (PDatetime _) = ''datetime''"
| "class_name (PTimezone _) = ''timezone''"
| "class_name (PTimedelta _ _ _) = ''timedelta''"
| "class_name (PDataclass c _) = snd c"
| "class_name (PEnum c _) = snd c"
| "class_name (PObject c) = snd c"

subsection \<open>Strings: split, join, the two texts of a UUID\<close>

text \<open>\<open>s.split(c)\<close> and \<open>sep.join(xs)\<close>.\<close>

fun split_on :: "char \<Rightarrow> string \<Rightarrow> string list" where
  "split_on c [] = [[]]"
| "split_on c (x # xs) =
     (if x = c then [] # split_on c xs
      else (case split_on c xs of [] \<Rightarrow> [[x]] | w # ws \<Rightarrow> (x # w) # ws))"

fun join :: "string \<Rightarrow> string list \<Rightarrow> string" where
  "join sep [] = []"
| "join sep [x] = x"
| "join sep (x # y # ys) = x @ sep @ join sep (y # ys)"

text \<open>
  \<open>UUID.hex\<close> is \<open>'%032x' % self.int\<close>: 32 lower-case hexadecimal digits.
  \<open>str(UUID)\<close> is the same digits in groups of 8, 4, 4, 4 and 12 with hyphens
  between them, the form RFC 4122 calls the string representation of a UUID.
\<close>

definition hex_digit :: "nat \<Rightarrow> char" where
  "hex_digit d = ''0123456789abcdef'' ! d"

fun hex_pad :: "nat \<Rightarrow> nat \<Rightarrow> string" where
  "hex_pad 0 n = []"
| "hex_pad (Suc k) n = hex_pad k (n div 16) @ [hex_digit (n mod 16)]"

definition uuid_hex :: "nat \<Rightarrow> string" where
  "uuid_hex u = hex_pad 32 u"

definition uuid_str :: "nat \<Rightarrow> string" where
  "uuid_str u =
     (let h = uuid_hex u
      in take 8 h @ ''-'' @ take 4 (drop 8 h) @ ''-'' @ take 4 (drop 12 h) @ ''-'' @
         take 4 (drop 16 h) @ ''-'' @ drop 20 h)"

subsection \<open>Encoding\<close>

text \<open>
  \<open>_encode_constructor_args\<close>: the envelope, a dictionary with the keys in the order
  the source writes them. \<open>args\<close> and \<open>kwargs\<close> are optional arguments.
\<close>

definition encode_constructor_args ::
  "pycls \<Rightarrow> string option \<Rightarrow> pyval option \<Rightarrow> pyval option \<Rightarrow> pyval" where
  "encode_constructor_args constructor method args kwargs =
     PDict [(''lc'', PInt 2),
            (''type'', PStr ''constructor''),
            (''id'', PList (map PStr (split_on CHR ''.'' (fst constructor) @ [snd constructor]))),
            (''method'', (case method of None \<Rightarrow> PNone | Some m \<Rightarrow> PStr m)),
            (''args'', (case args of None \<Rightarrow> PList [] | Some a \<Rightarrow> a)),
            (''kwargs'', (case kwargs of None \<Rightarrow> PDict [] | Some k \<Rightarrow> k))]"

text \<open>
  \<open>_default\<close>, the hook \<open>json.dumps\<close> calls on an object it cannot write itself. The
  equations are the branches of the source in their order; the last one is the
  \<open>else\<close>.
\<close>

fun default_hook :: "pyval \<Rightarrow> error + pyval" where
  "default_hook (PSerializable j) = Inr j"
| "default_hook (PModel c d) = Inr (encode_constructor_args c None None (Some (PDict d)))"
| "default_hook (PUUID u) =
     Inr (encode_constructor_args (''uuid'', ''UUID'') None
            (Some (PList [PStr (uuid_hex u)])) None)"
| "default_hook (PSet xs) =
     Inr (encode_constructor_args (''builtins'', ''set'') None (Some (PList [PList xs])) None)"
| "default_hook (PFrozenset xs) =
     Inr (encode_constructor_args (''builtins'', ''frozenset'') None
            (Some (PList [PList xs])) None)"
| "default_hook (PDatetime isoformat) =
     Inr (encode_constructor_args (''datetime'', ''datetime'') (Some ''fromisoformat'')
            (Some (PList [PStr isoformat])) None)"
| "default_hook (PTimezone initargs) =
     Inr (encode_constructor_args (''datetime'', ''timezone'') None
            (Some (PTuple initargs)) None)"
| "default_hook (PTimedelta d s us) =
     Inr (encode_constructor_args (''datetime'', ''timedelta'') None
            (Some (PList [PInt d, PInt s, PInt us])) None)"
| "default_hook (PDataclass c fs) =
     Inr (encode_constructor_args c None None (Some (PDict fs)))"
| "default_hook (PEnum c v) = Inr (encode_constructor_args c None (Some (PList [v])) None)"
| "default_hook obj =
     Inl (TypeError (''Object of type '' @ class_name obj @ '' is not JSON serializable''))"

text \<open>The results of a sequence of steps, or the first exception among them.\<close>

fun all_ok :: "(error + 'a) list \<Rightarrow> error + 'a list" where
  "all_ok [] = Inr []"
| "all_ok (Inl e # rs) = Inl e"
| "all_ok (Inr x # rs) = (case all_ok rs of Inl e \<Rightarrow> Inl e | Inr xs \<Rightarrow> Inr (x # xs))"

text \<open>
  \<open>json.dumps(obj, default=self._default, sort_keys=True)\<close>: the encoder writes
  \<open>None\<close>, booleans, numbers and strings as they are, a list or a tuple as an array,
  a dictionary as an object with its items sorted by key, and hands anything else to
  the hook and encodes what the hook returns. The recursion ends because the hook
  returns a value with one object fewer (\<open>objs\<close>).
\<close>

primrec objs :: "pyval \<Rightarrow> nat" where
  "objs PNone = 0"
| "objs (PBool b) = 0"
| "objs (PInt i) = 0"
| "objs (PFloat f) = 0"
| "objs (PStr s) = 0"
| "objs (PList xs) = sum_list (map objs xs)"
| "objs (PTuple xs) = sum_list (map objs xs)"
| "objs (PDict kvs) = sum_list (map snd (map (map_prod id objs) kvs))"
| "objs (PGen xs) = 1 + sum_list (map objs xs)"
| "objs (PSerializable j) = 1 + objs j"
| "objs (PModel c kvs) = 1 + sum_list (map snd (map (map_prod id objs) kvs))"
| "objs (PUUID u) = 1"
| "objs (PSet xs) = 1 + sum_list (map objs xs)"
| "objs (PFrozenset xs) = 1 + sum_list (map objs xs)"
| "objs (PDatetime s) = 1"
| "objs (PTimezone xs) = 1 + sum_list (map objs xs)"
| "objs (PTimedelta d s u) = 1"
| "objs (PDataclass c kvs) = 1 + sum_list (map snd (map (map_prod id objs) kvs))"
| "objs (PEnum c v) = 1 + objs v"
| "objs (PObject c) = 1"

lemma objs_encode_constructor_args:
  "objs (encode_constructor_args c m a k) =
     (case a of None \<Rightarrow> 0 | Some x \<Rightarrow> objs x) + (case k of None \<Rightarrow> 0 | Some x \<Rightarrow> objs x)"
  by (simp add: encode_constructor_args_def o_def split: option.splits)

lemma objs_member: "x \<in> set xs \<Longrightarrow> objs x \<le> sum_list (map objs xs)"
  by (induction xs) auto

lemma objs_member_snd:
  "(k, x) \<in> set kvs \<Longrightarrow> objs x \<le> sum_list (map snd (map (map_prod id objs) kvs))"
  by (induction kvs) auto

function json_encode :: "pyval \<Rightarrow> error + json" where
  "json_encode PNone = Inr JNull"
| "json_encode (PBool b) = Inr (JBool b)"
| "json_encode (PInt i) = Inr (JInt i)"
| "json_encode (PFloat f) = Inr (JFloat f)"
| "json_encode (PStr s) = Inr (JStr s)"
| "json_encode (PList xs) = map_sum id JArr (all_ok (map json_encode xs))"
| "json_encode (PTuple xs) = map_sum id JArr (all_ok (map json_encode xs))"
| "json_encode (PDict kvs) =
     map_sum id JObj
       (all_ok (map (\<lambda>(k, v). map_sum id (Pair k) (json_encode v)) (sort_key fst kvs)))"
| "json_encode (PGen xs) =
     (case default_hook (PGen xs) of Inl e \<Rightarrow> Inl e | Inr d \<Rightarrow> json_encode d)"
| "json_encode (PSerializable j) =
     (case default_hook (PSerializable j) of Inl e \<Rightarrow> Inl e | Inr d \<Rightarrow> json_encode d)"
| "json_encode (PModel c kvs) =
     (case default_hook (PModel c kvs) of Inl e \<Rightarrow> Inl e | Inr d \<Rightarrow> json_encode d)"
| "json_encode (PUUID u) =
     (case default_hook (PUUID u) of Inl e \<Rightarrow> Inl e | Inr d \<Rightarrow> json_encode d)"
| "json_encode (PSet xs) =
     (case default_hook (PSet xs) of Inl e \<Rightarrow> Inl e | Inr d \<Rightarrow> json_encode d)"
| "json_encode (PFrozenset xs) =
     (case default_hook (PFrozenset xs) of Inl e \<Rightarrow> Inl e | Inr d \<Rightarrow> json_encode d)"
| "json_encode (PDatetime s) =
     (case default_hook (PDatetime s) of Inl e \<Rightarrow> Inl e | Inr d \<Rightarrow> json_encode d)"
| "json_encode (PTimezone xs) =
     (case default_hook (PTimezone xs) of Inl e \<Rightarrow> Inl e | Inr d \<Rightarrow> json_encode d)"
| "json_encode (PTimedelta d s u) =
     (case default_hook (PTimedelta d s u) of Inl e \<Rightarrow> Inl e | Inr d \<Rightarrow> json_encode d)"
| "json_encode (PDataclass c kvs) =
     (case default_hook (PDataclass c kvs) of Inl e \<Rightarrow> Inl e | Inr d \<Rightarrow> json_encode d)"
| "json_encode (PEnum c v) =
     (case default_hook (PEnum c v) of Inl e \<Rightarrow> Inl e | Inr d \<Rightarrow> json_encode d)"
| "json_encode (PObject c) =
     (case default_hook (PObject c) of Inl e \<Rightarrow> Inl e | Inr d \<Rightarrow> json_encode d)"
  by pat_completeness auto
termination
  by (relation "inv_image (less_than <*lex*> less_than) (\<lambda>v. (objs v, size v))")
     (auto dest: objs_member objs_member_snd
           simp: less_Suc_eq_le size_list_estimation' objs_encode_constructor_args
           intro!: wf_inv_image wf_lex_prod)

text \<open>
  \<open>_convert_generators\<close>: the branches of the source in their order. A generator is
  replaced by \<open>list(obj)\<close>; a dictionary, a list and a tuple are rebuilt from their
  converted members; anything else is returned as it is.
\<close>

fun convert_generators :: "pyval \<Rightarrow> pyval" where
  "convert_generators (PGen xs) = PList xs"
| "convert_generators (PDict kvs) = PDict (map (\<lambda>(k, v). (k, convert_generators v)) kvs)"
| "convert_generators (PList xs) = PList (map convert_generators xs)"
| "convert_generators (PTuple xs) = PTuple (map convert_generators xs)"
| "convert_generators obj = obj"

definition dumps :: "pyval \<Rightarrow> error + json" where
  "dumps obj = json_encode (convert_generators obj)"

subsection \<open>Decoding\<close>

text \<open>
  What decoding finds outside the serializer is a parameter of the model.
  \<open>importlib.import_module\<close> takes a dotted name and returns a module or raises; a
  module maps attribute names to objects; such an object can be called with positional
  and keyword arguments, and has named attributes that can be called in the same way
  (a class and its class methods). \<open>LC_REVIVER\<close> is langchain's reviver, called on a
  dictionary.
\<close>

type_synonym pycall = "pyval list \<Rightarrow> (string \<times> pyval) list \<Rightarrow> error + pyval"

record pyattr =
  call :: pycall
  attribute :: "string \<Rightarrow> pycall option"

type_synonym pymodule = "string \<Rightarrow> pyattr option"

type_synonym pyenv = "string \<Rightarrow> error + pymodule"

type_synonym lc_reviver = "(string \<times> pyval) list \<Rightarrow> error + pyval"

text \<open>Dictionary operations: \<open>d.get(k)\<close>, \<open>d[k]\<close>, \<open>d[k] = v\<close>.\<close>

definition dict_get :: "(string \<times> 'a) list \<Rightarrow> string \<Rightarrow> 'a option" where
  "dict_get d k = map_of d k"

definition getitem :: "(string \<times> pyval) list \<Rightarrow> string \<Rightarrow> error + pyval" where
  "getitem d k = (case dict_get d k of None \<Rightarrow> Inl (KeyError k) | Some v \<Rightarrow> Inr v)"

fun dict_set :: "(string \<times> 'a) list \<Rightarrow> string \<Rightarrow> 'a \<Rightarrow> (string \<times> 'a) list" where
  "dict_set [] k v = [(k, v)]"
| "dict_set ((k', v') # d) k v = (if k' = k then (k, v) # d else (k', v') # dict_set d k v)"

definition dict_of_pairs :: "(string \<times> 'a) list \<Rightarrow> (string \<times> 'a) list" where
  "dict_of_pairs ps = foldl (\<lambda>d (k, v). dict_set d k v) [] ps"

text \<open>\<open>x == 2\<close> for what \<open>value.get("lc", None)\<close> returns.\<close>

fun eq_two :: "pyval option \<Rightarrow> bool" where
  "eq_two (Some (PInt i)) = (i = 2)"
| "eq_two (Some (PFloat f)) = (f = 2)"
| "eq_two _ = False"

text \<open>
  Iterating a value, for an unpacking assignment and for \<open>*args\<close>: the members of a
  list, tuple, set or generator, the characters of a string, the keys of a dictionary;
  any other value of the model is taken not to be iterable. \<open>msg\<close> starts the text of
  the TypeError.
\<close>

fun iterate :: "string \<Rightarrow> pyval \<Rightarrow> error + pyval list" where
  "iterate msg (PList xs) = Inr xs"
| "iterate msg (PTuple xs) = Inr xs"
| "iterate msg (PStr s) = Inr (map (\<lambda>c. PStr [c]) s)"
| "iterate msg (PDict kvs) = Inr (map (\<lambda>(k, v). PStr k) kvs)"
| "iterate msg (PSet xs) = Inr xs"
| "iterate msg (PFrozenset xs) = Inr xs"
| "iterate msg (PGen xs) = Inr xs"
| "iterate msg obj = Inl (TypeError (msg @ class_name obj))"

fun str_of :: "pyval \<Rightarrow> string option" where
  "str_of (PStr s) = Some s"
| "str_of _ = None"

definition join_strs :: "string \<Rightarrow> pyval list \<Rightarrow> error + string" where
  "join_strs sep xs =
     (case those (map str_of xs) of
        None \<Rightarrow> Inl (TypeError ''sequence item: expected str instance'')
      | Some ss \<Rightarrow> Inr (join sep ss))"

definition getattr_module :: "pymodule \<Rightarrow> pyval \<Rightarrow> error + pyattr" where
  "getattr_module m name =
     (case str_of name of
        None \<Rightarrow> Inl (TypeError ''attribute name must be string'')
      | Some n \<Rightarrow> (case m n of None \<Rightarrow> Inl (AttributeError n) | Some a \<Rightarrow> Inr a))"

definition getattr_class :: "pyattr \<Rightarrow> pyval \<Rightarrow> error + pycall" where
  "getattr_class cls name =
     (case str_of name of
        None \<Rightarrow> Inl (TypeError ''attribute name must be string'')
      | Some n \<Rightarrow> (case attribute cls n of None \<Rightarrow> Inl (AttributeError n) | Some f \<Rightarrow> Inr f))"

fun star_kwargs :: "pyval \<Rightarrow> error + (string \<times> pyval) list" where
  "star_kwargs (PDict kvs) = Inr kvs"
| "star_kwargs obj =
     Inl (TypeError (''argument after ** must be a mapping, not '' @ class_name obj))"

text \<open>
  The call \<open>f(*value["args"], **value["kwargs"])\<close>. The interpreter evaluates
  the two subscripts from left to right, then checks that the value after \<open>**\<close> is
  a mapping, and unpacks the value after \<open>*\<close> last, when it makes the call. (The
  interpreter's messages also name the callable, which the model's do not.)
\<close>

definition apply_call :: "pycall \<Rightarrow> (string \<times> pyval) list \<Rightarrow> error + pyval" where
  "apply_call f value =
     bind_err (getitem value ''args'') (\<lambda>a.
     bind_err (getitem value ''kwargs'') (\<lambda>k.
     bind_err (star_kwargs k) (\<lambda>kwargs.
     bind_err (iterate ''argument after * must be an iterable, not '' a) (\<lambda>args.
       f args kwargs))))"

text \<open>
  \<open>_reviver\<close>, the \<open>object_hook\<close> of \<open>json.loads\<close>. On a dictionary with
  \<open>lc == 2\<close>, type \<open>"constructor"\<close> and an \<open>id\<close> that is not \<open>None\<close> it unpacks the
  \<open>id\<close> into the module path and the name, imports the module named by the path
  joined with dots, reads the name off the module, and calls either the object found
  or, where \<open>method\<close> is not \<open>None\<close>, its attribute of that name. Any other dictionary
  goes to \<open>LC_REVIVER\<close>.
\<close>

definition reviver :: "pyenv \<Rightarrow> lc_reviver \<Rightarrow> (string \<times> pyval) list \<Rightarrow> error + pyval" where
  "reviver import_module LC_REVIVER value =
     (if eq_two (dict_get value ''lc'')
         \<and> dict_get value ''type'' = Some (PStr ''constructor'')
         \<and> dict_get value ''id'' \<noteq> None \<and> dict_get value ''id'' \<noteq> Some PNone
      then
        bind_err (getitem value ''id'') (\<lambda>path.
        bind_err (iterate ''cannot unpack non-iterable '' path) (\<lambda>segments.
          if segments = []
          then Inl (ValueError ''not enough values to unpack (expected at least 1, got 0)'')
          else
            bind_err (join_strs ''.'' (butlast segments)) (\<lambda>module_name.
            bind_err (import_module module_name) (\<lambda>module.
            bind_err (getattr_module module (last segments)) (\<lambda>cls.
            bind_err (getitem value ''method'') (\<lambda>m.
              if m \<noteq> PNone
              then bind_err (getattr_class cls m) (\<lambda>method. apply_call method value)
              else apply_call (call cls) value))))))
      else LC_REVIVER value)"

text \<open>
  \<open>json.loads(data, object_hook=self._reviver)\<close>: an array becomes a list, an object
  becomes a dictionary of its decoded members (a repeated key keeps its first place and
  its last value) and is then handed to the hook, whose result stands for it.
\<close>

fun json_decode :: "pyenv \<Rightarrow> lc_reviver \<Rightarrow> json \<Rightarrow> error + pyval" where
  "json_decode env lc JNull = Inr PNone"
| "json_decode env lc (JBool b) = Inr (PBool b)"
| "json_decode env lc (JInt i) = Inr (PInt i)"
| "json_decode env lc (JFloat f) = Inr (PFloat f)"
| "json_decode env lc (JStr s) = Inr (PStr s)"
| "json_decode env lc (JArr js) = map_sum id PList (all_ok (map (json_decode env lc) js))"
| "json_decode env lc (JObj kjs) =
     bind_err (all_ok (map (\<lambda>(k, j). map_sum id (Pair k) (json_decode env lc j)) kjs))
       (\<lambda>pairs. reviver env lc (dict_of_pairs pairs))"

definition loads :: "pyenv \<Rightarrow> lc_reviver \<Rightarrow> json \<Rightarrow> error + pyval" where
  "loads env lc data = json_decode env lc data"

subsection \<open>Comparison values and sample surroundings\<close>

text \<open>
  The value the claim about generators compares with: the same value with each
  generator replaced by the list of all its elements.
\<close>

fun materialize :: "pyval \<Rightarrow> pyval" where
  "materialize (PGen xs) = PList (map materialize xs)"
| "materialize (PDict kvs) = PDict (map (\<lambda>(k, v). (k, materialize v)) kvs)"
| "materialize (PList xs) = PList (map materialize xs)"
| "materialize (PTuple xs) = PTuple (map materialize xs)"
| "materialize obj = obj"

text \<open>
  Generators whose elements hold no further generator where \<open>_convert_generators\<close>
  would look for one.
\<close>

fun flat_generators :: "pyval \<Rightarrow> bool" where
  "flat_generators (PGen xs) = list_all (\<lambda>x. convert_generators x = x) xs"
| "flat_generators (PDict kvs) = list_all (\<lambda>(k, v). flat_generators v) kvs"
| "flat_generators (PList xs) = list_all flat_generators xs"
| "flat_generators (PTuple xs) = list_all flat_generators xs"
| "flat_generators obj = True"

text \<open>
  A Python process in which only the module \<open>os\<close> can be imported, with its function
  \<open>getcwd\<close>, and an \<open>LC_REVIVER\<close> that returns every dictionary as it is.
\<close>

definition os_env :: pyenv where
  "os_env name =
     (if name = ''os''
      then Inr (\<lambda>a. if a = ''getcwd''
                     then Some \<lparr> call = (\<lambda>args kwargs. Inr (PStr ''/root'')),
                                 attribute = (\<lambda>n. None) \<rparr>
                     else None)
      else Inl (ModuleNotFoundError name))"

definition lc_identity :: lc_reviver where
  "lc_identity d = Inr (PDict d)"

definition envelope ::
  "string list \<Rightarrow> pyval \<Rightarrow> pyval \<Rightarrow> pyval \<Rightarrow> (string \<times> pyval) list" where
  "envelope path method args kwargs =
     [(''lc'', PInt 2), (''type'', PStr ''constructor''), (''id'', PList (map PStr path)),
      (''method'', method), (''args'', args), (''kwargs'', kwargs)]"

text \<open>
  The same value with the items of every dictionary in it, at any depth, in the order
  of their keys. Two dictionaries with distinct keys are equal as mappings, whatever
  the insertion order of the dictionaries in them, when they bind the same keys to
  values that this function makes equal.
\<close>

fun sort_keys :: "pyval \<Rightarrow> pyval" where
  "sort_keys (PDict kvs) = PDict (sort_key fst (map (\<lambda>(k, v). (k, sort_keys v)) kvs))"
| "sort_keys (PList xs) = PList (map sort_keys xs)"
| "sort_keys (PTuple xs) = PTuple (map sort_keys xs)"
| "sort_keys (PGen xs) = PGen (map sort_keys xs)"
| "sort_keys (PSerializable j) = PSerializable (sort_keys j)"
| "sort_keys (PModel c d) = PModel c (map (\<lambda>(k, v). (k, sort_keys v)) d)"
| "sort_keys (PSet xs) = PSet (map sort_keys xs)"
| "sort_keys (PFrozenset xs) = PFrozenset (map sort_keys xs)"
| "sort_keys (PTimezone xs) = PTimezone (map sort_keys xs)"
| "sort_keys (PDataclass c fs) = PDataclass c (map (\<lambda>(k, v). (k, sort_keys v)) fs)"
| "sort_keys (PEnum c v) = PEnum c (sort_keys v)"
| "sort_keys obj = obj"


subsection \<open>Structural equality and the values that round-trip\<close>

text \<open>
  What a value is, apart from the insertion order of its dictionaries and the iteration
  order of its sets: dictionaries and the fields of objects are finite maps, sets are
  finite sets. Two values are structurally equal when they have the same image.
\<close>

datatype aval =
    ANone
  | ABool bool
  | AInt int
  | AFloat rat
  | AStr string
  | AList "aval list"
  | ATuple "aval list"
  | ADict "(string, aval) fmap"
  | AGen "aval list"
  | ASerializable aval
  | AModel pycls "(string, aval) fmap"
  | AUUID nat
  | ASet "aval fset"
  | AFrozenset "aval fset"
  | ADatetime string
  | ATimezone "aval list"
  | ATimedelta int int int
  | ADataclass pycls "(string, aval) fmap"
  | AEnum pycls aval
  | AObject pycls

primrec abs_val :: "pyval \<Rightarrow> aval" where
  "abs_val PNone = ANone"
| "abs_val (PBool b) = ABool b"
| "abs_val (PInt i) = AInt i"
| "abs_val (PFloat f) = AFloat f"
| "abs_val (PStr s) = AStr s"
| "abs_val (PList xs) = AList (map abs_val xs)"
| "abs_val (PTuple xs) = ATuple (map abs_val xs)"
| "abs_val (PDict kvs) = ADict (fmap_of_list (map (map_prod id abs_val) kvs))"
| "abs_val (PGen xs) = AGen (map abs_val xs)"
| "abs_val (PSerializable j) = ASerializable (abs_val j)"
| "abs_val (PModel c kvs) = AModel c (fmap_of_list (map (map_prod id abs_val) kvs))"
| "abs_val (PUUID u) = AUUID u"
| "abs_val (PSet xs) = ASet (fset_of_list (map abs_val xs))"
| "abs_val (PFrozenset xs) = AFrozenset (fset_of_list (map abs_val xs))"
| "abs_val (PDatetime s) = ADatetime s"
| "abs_val (PTimezone xs) = ATimezone (map abs_val xs)"
| "abs_val (PTimedelta d s u) = ATimedelta d s u"
| "abs_val (PDataclass c kvs) = ADataclass c (fmap_of_list (map (map_prod id abs_val) kvs))"
| "abs_val (PEnum c v) = AEnum c (abs_val v)"
| "abs_val (PObject c) = AObject c"

text \<open>
  What the surroundings have to provide for a value to come back. The class \<open>c\<close> is
  found where the reviver looks for it: as the attribute \<open>__name__\<close> of the module
  \<open>__module__\<close>.
\<close>

definition resolve :: "pyenv \<Rightarrow> pycls \<Rightarrow> pyattr option" where
  "resolve env c = (case env (fst c) of Inl e \<Rightarrow> None | Inr m \<Rightarrow> m (snd c))"

text \<open>
  \<open>LC_REVIVER\<close> returns a dictionary that has no key \<open>lc\<close> as it is.
\<close>

definition lc_passes :: "lc_reviver \<Rightarrow> bool" where
  "lc_passes lc \<longleftrightarrow> (\<forall>d. dict_get d ''lc'' = None \<longrightarrow> lc d = Inr (PDict d))"

text \<open>
  Calling the class, or its factory \<open>method\<close>, with the positional arguments \<open>args\<close>
  returns \<open>result\<close>.
\<close>

definition constructs ::
  "pyenv \<Rightarrow> pycls \<Rightarrow> string option \<Rightarrow> pyval list \<Rightarrow> pyval \<Rightarrow> bool" where
  "constructs env c method args result \<longleftrightarrow>
     (case resolve env c of
        None \<Rightarrow> False
      | Some a \<Rightarrow>
          (case method of
             None \<Rightarrow> call a args [] = Inr result
           | Some f \<Rightarrow>
               (case attribute a f of None \<Rightarrow> False | Some g \<Rightarrow> g args [] = Inr result)))"

text \<open>
  \<open>xs\<close> are the members of a set. \<open>set(ws)\<close>, for a list \<open>ws\<close> of values that
  are structurally equal to the members one by one, returns a set with the members of
  \<open>ws\<close>. (The members of a set are hashable and no two of them are equal, so the same
  holds of \<open>ws\<close>, and Python's \<open>set()\<close> keeps every one of them. Nothing is
  asked of \<open>set()\<close> on other lists, where it drops the members that are equal to
  an earlier one, as it does for \<open>[1, 1.0, True]\<close>.) The same for \<open>frozenset\<close>.
\<close>

definition builds_set :: "pyenv \<Rightarrow> pyval list \<Rightarrow> bool" where
  "builds_set env xs \<longleftrightarrow>
     (\<exists>a. resolve env (''builtins'', ''set'') = Some a \<and>
        (\<forall>ws. map abs_val ws = map abs_val xs \<longrightarrow>
           (\<exists>ws'. call a [PList ws] [] = Inr (PSet ws') \<and>
                  fset_of_list (map abs_val ws') = fset_of_list (map abs_val ws))))"

definition builds_frozenset :: "pyenv \<Rightarrow> pyval list \<Rightarrow> bool" where
  "builds_frozenset env xs \<longleftrightarrow>
     (\<exists>a. resolve env (''builtins'', ''frozenset'') = Some a \<and>
        (\<forall>ws. map abs_val ws = map abs_val xs \<longrightarrow>
           (\<exists>ws'. call a [PList ws] [] = Inr (PFrozenset ws') \<and>
                  fset_of_list (map abs_val ws') = fset_of_list (map abs_val ws))))"

text \<open>
  The dataclass \<open>c\<close> with the fields \<open>names\<close>, called with one keyword argument for
  each field, returns the instance that has these values as its fields.
\<close>

definition builds_dataclass :: "pyenv \<Rightarrow> pycls \<Rightarrow> string list \<Rightarrow> bool" where
  "builds_dataclass env c names \<longleftrightarrow>
     (\<exists>a. resolve env c = Some a \<and>
        (\<forall>kw. distinct (map fst kw) \<and> set (map fst kw) = set names \<longrightarrow>
           (\<exists>fs. call a [] kw = Inr (PDataclass c fs) \<and>
                 fmap_of_list (map (map_prod id abs_val) fs) =
                 fmap_of_list (map (map_prod id abs_val) kw))))"

text \<open>
  \<open>d\<close> is the dump of an instance of the pydantic class \<open>c\<close>. The class, called
  with keyword arguments that are structurally equal to the items of the dump, returns
  an instance with that dump.
\<close>

definition builds_model :: "pyenv \<Rightarrow> pycls \<Rightarrow> (string \<times> pyval) list \<Rightarrow> bool" where
  "builds_model env c d \<longleftrightarrow>
     (\<exists>a. resolve env c = Some a \<and>
        (\<forall>kw. distinct (map fst kw) \<and>
              fmap_of_list (map (map_prod id abs_val) kw) =
              fmap_of_list (map (map_prod id abs_val) d) \<longrightarrow>
           (\<exists>d'. call a [] kw = Inr (PModel c d') \<and>
                 fmap_of_list (map (map_prod id abs_val) d') =
                 fmap_of_list (map (map_prod id abs_val) d))))"

text \<open>
  The enumeration \<open>c\<close>, called with a value equal to \<open>v\<close>, returns its member of that
  value.
\<close>

definition builds_enum :: "pyenv \<Rightarrow> pycls \<Rightarrow> pyval \<Rightarrow> bool" where
  "builds_enum env c v \<longleftrightarrow>
     (\<exists>a. resolve env c = Some a \<and>
        (\<forall>w. abs_val w = abs_val v \<longrightarrow>
           (\<exists>v'. call a [w] [] = Inr (PEnum c v') \<and> abs_val v' = abs_val v)))"

text \<open>
  The values of the supported types: JSON-native scalars, lists and dictionaries,
  UUIDs, datetimes, timedeltas, sets and frozen sets, enumeration members (\<open>PEnum\<close>:
  of enumerations that derive from neither \<open>int\<close> nor \<open>str\<close>), dataclass
  instances and pydantic models, nested in one another, where the decoding process
  provides each class: the class an envelope names can be imported and, called with the
  arguments the encoder extracted, returns the instance. No tuple is among them, and
  no dictionary, dataclass or model with a key or field \<open>lc\<close>, which the revivers look
  for.
\<close>

fun supported :: "pyenv \<Rightarrow> pyval \<Rightarrow> bool" where
  "supported env PNone = True"
| "supported env (PBool b) = True"
| "supported env (PInt i) = True"
| "supported env (PFloat f) = True"
| "supported env (PStr s) = True"
| "supported env (PList xs) = list_all (supported env) xs"
| "supported env (PDict kvs) =
     (distinct (map fst kvs) \<and> ''lc'' \<notin> set (map fst kvs) \<and>
      list_all (\<lambda>(k, v). supported env v) kvs)"
| "supported env (PUUID u) = constructs env (''uuid'', ''UUID'') None [PStr (uuid_hex u)] (PUUID u)"
| "supported env (PModel c d) =
     (distinct (map fst d) \<and> ''lc'' \<notin> set (map fst d) \<and>
      list_all (\<lambda>(k, v). supported env v) d \<and> builds_model env c d)"
| "supported env (PSet xs) = (list_all (supported env) xs \<and> builds_set env xs)"
| "supported env (PFrozenset xs) = (list_all (supported env) xs \<and> builds_frozenset env xs)"
| "supported env (PDatetime s) =
     constructs env (''datetime'', ''datetime'') (Some ''fromisoformat'') [PStr s] (PDatetime s)"
| "supported env (PTimedelta d s us) =
     constructs env (''datetime'', ''timedelta'') None [PInt d, PInt s, PInt us]
       (PTimedelta d s us)"
| "supported env (PDataclass c fs) =
     (distinct (map fst fs) \<and> ''lc'' \<notin> set (map fst fs) \<and>
      list_all (\<lambda>(k, v). supported env v) fs \<and> builds_dataclass env c (map fst fs))"
| "supported env (PEnum c v) = (supported env v \<and> builds_enum env c v)"
| "supported env obj = False"

text \<open>Encoding succeeds, decoding the document succeeds, and the value is the same.\<close>

definition round_trips :: "pyenv \<Rightarrow> lc_reviver \<Rightarrow> pyval \<Rightarrow> bool" where
  "round_trips env lc v \<longleftrightarrow>
     (\<exists>j w. json_encode v = Inr j \<and> json_decode env lc j = Inr w \<and> abs_val w = abs_val v)"

subsection \<open>A sample Python process\<close>

text \<open>
  A process whose modules \<open>uuid\<close>, \<open>builtins\<close> and \<open>datetime\<close> hold the classes the
  envelopes of the built-in encodings name, and whose module \<open>app.models\<close> holds a
  dataclass \<open>Point\<close> with the fields \<open>x\<close> and \<open>y\<close>, a pydantic model \<open>User\<close>
  with the fields \<open>name\<close> and \<open>tags\<close>, and an enumeration \<open>Color\<close> with the
  values \<open>"red"\<close> and \<open>"green"\<close>. The classes of the standard library are
  written after the standard library: \<open>UUID(hex)\<close> reads 32 hexadecimal digits,
  \<open>timedelta(days, seconds, microseconds)\<close> normalizes its arguments,
  \<open>set(iterable)\<close> raises on a member that is not hashable and keeps the first of
  the members that are equal to one another.
\<close>

text \<open>
  Values that can be members of a set: the immutable scalars and objects. A list, a
  dictionary or a set is not hashable, and a tuple is when its members are. (Python
  hashes generators and objects of other classes by identity; \<open>set()\<close> of the sample
  process takes only the values below.)
\<close>

fun ahashable :: "aval \<Rightarrow> bool" where
  "ahashable ANone = True"
| "ahashable (ABool _) = True"
| "ahashable (AInt _) = True"
| "ahashable (AFloat _) = True"
| "ahashable (AStr _) = True"
| "ahashable (ATuple xs) = list_all ahashable xs"
| "ahashable (AUUID _) = True"
| "ahashable (AFrozenset _) = True"
| "ahashable (ADatetime _) = True"
| "ahashable (ATimezone _) = True"
| "ahashable (ATimedelta _ _ _) = True"
| "ahashable (AEnum _ _) = True"
| "ahashable _ = False"

definition hashable :: "pyval \<Rightarrow> bool" where
  "hashable v = ahashable (abs_val v)"

text \<open>
  \<open>==\<close> between hashable values: numbers, the booleans among them, are equal when
  they have the same value (\<open>1 == 1.0 == True\<close>), tuples and frozen sets when their
  members are, anything else when it is the same value. \<open>py_key\<close> replaces every
  number by its value, so that two values are equal when their keys are the same.
  (A datetime is compared by its text and a timezone by its arguments; Python also
  takes two datetimes with different offsets for equal when they are the same instant,
  which this process does not.)
\<close>

primrec py_key :: "aval \<Rightarrow> aval" where
  "py_key ANone = ANone"
| "py_key (ABool b) = AFloat (if b then 1 else 0)"
| "py_key (AInt i) = AFloat (of_int i)"
| "py_key (AFloat f) = AFloat f"
| "py_key (AStr s) = AStr s"
| "py_key (AList xs) = AList xs"
| "py_key (ATuple xs) = ATuple (map py_key xs)"
| "py_key (ADict d) = ADict d"
| "py_key (AGen xs) = AGen xs"
| "py_key (ASerializable j) = ASerializable j"
| "py_key (AModel c d) = AModel c d"
| "py_key (AUUID u) = AUUID u"
| "py_key (ASet xs) = ASet xs"
| "py_key (AFrozenset xs) = AFrozenset (py_key |`| xs)"
| "py_key (ADatetime s) = ADatetime s"
| "py_key (ATimezone xs) = ATimezone xs"
| "py_key (ATimedelta d s us) = ATimedelta d s us"
| "py_key (ADataclass c d) = ADataclass c d"
| "py_key (AEnum c v) = AEnum c v"
| "py_key (AObject c) = AObject c"

definition py_eq :: "pyval \<Rightarrow> pyval \<Rightarrow> bool" where
  "py_eq v w \<longleftrightarrow> py_key (abs_val v) = py_key (abs_val w)"

definition py_dedup :: "pyval list \<Rightarrow> pyval list" where
  "py_dedup ws = foldl (\<lambda>kept w. if list_ex (py_eq w) kept then kept else kept @ [w]) [] ws"

definition hex_value :: "char \<Rightarrow> nat option" where
  "hex_value c =
     map_of (zip ''0123456789abcdef'' [0, 1, 2, 3, 4, 5, 6, 7, 8, 9, 10, 11, 12, 13, 14, 15]) c"

fun from_hex :: "string \<Rightarrow> nat \<Rightarrow> nat option" where
  "from_hex [] acc = Some acc"
| "from_hex (c # cs) acc =
     (case hex_value c of None \<Rightarrow> None | Some d \<Rightarrow> from_hex cs (16 * acc + d))"

fun int_of :: "pyval \<Rightarrow> int option" where
  "int_of (PInt i) = Some i"
| "int_of _ = None"

fun list_of :: "pyval \<Rightarrow> pyval list option" where
  "list_of (PList xs) = Some xs"
| "list_of _ = None"

definition uuid_new :: pycall where
  "uuid_new args kwargs =
     (case (those (map str_of args), kwargs) of
        (Some [h], []) \<Rightarrow>
          (case (if length h = 32 then from_hex h 0 else None) of
             None \<Rightarrow> Inl (ValueError ''badly formed hexadecimal UUID string'')
           | Some n \<Rightarrow> Inr (PUUID n))
      | _ \<Rightarrow> Inl (TypeError ''UUID()''))"

definition set_new :: pycall where
  "set_new args kwargs =
     (case (those (map list_of args), kwargs) of
        (Some [ws], []) \<Rightarrow>
          (if list_all hashable ws then Inr (PSet (py_dedup ws))
           else Inl (TypeError ''unhashable type''))
      | _ \<Rightarrow> Inl (TypeError ''set()''))"

definition frozenset_new :: pycall where
  "frozenset_new args kwargs =
     (case (those (map list_of args), kwargs) of
        (Some [ws], []) \<Rightarrow>
          (if list_all hashable ws then Inr (PFrozenset (py_dedup ws))
           else Inl (TypeError ''unhashable type''))
      | _ \<Rightarrow> Inl (TypeError ''frozenset()''))"

definition fromisoformat :: pycall where
  "fromisoformat args kwargs =
     (case (those (map str_of args), kwargs) of
        (Some [s], []) \<Rightarrow> Inr (PDatetime s)
      | _ \<Rightarrow> Inl (TypeError ''fromisoformat: argument must be str''))"

definition timedelta_new :: pycall where
  "timedelta_new args kwargs =
     (case (those (map int_of args), kwargs) of
        (Some [d, s, us], []) \<Rightarrow>
          (let s' = s + us div 1000000
           in Inr (PTimedelta (d + s' div 86400) (s' mod 86400) (us mod 1000000)))
      | _ \<Rightarrow> Inl (TypeError ''timedelta()''))"

definition dataclass_new :: "pycls \<Rightarrow> string list \<Rightarrow> pycall" where
  "dataclass_new c names args kwargs =
     (if args = [] \<and> distinct (map fst kwargs) \<and> set (map fst kwargs) = set names
      then Inr (PDataclass c (map (\<lambda>n. (n, the (map_of kwargs n))) names))
      else Inl (TypeError ''__init__() got unexpected arguments''))"

definition model_new :: "pycls \<Rightarrow> string list \<Rightarrow> pycall" where
  "model_new c names args kwargs =
     (if args = [] \<and> distinct (map fst kwargs) \<and> set (map fst kwargs) = set names
      then Inr (PModel c (map (\<lambda>n. (n, the (map_of kwargs n))) names))
      else Inl (ValueError ''validation error''))"

definition enum_new :: "pycls \<Rightarrow> pyval list \<Rightarrow> pycall" where
  "enum_new c members args kwargs =
     (case (args, kwargs) of
        ([w], []) \<Rightarrow>
          (case find (\<lambda>v. abs_val v = abs_val w) members of
             None \<Rightarrow> Inl (ValueError ''not a valid value'')
           | Some v \<Rightarrow> Inr (PEnum c v))
      | _ \<Rightarrow> Inl (TypeError ''EnumType.__call__()''))"

definition no_call :: pycall where
  "no_call args kwargs = Inl (TypeError ''missing required argument'')"

definition py_env :: pyenv where
  "py_env name =
     (if name = ''uuid''
      then Inr [''UUID'' \<mapsto> \<lparr> call = uuid_new, attribute = Map.empty \<rparr>]
      else if name = ''builtins''
      then Inr [''set'' \<mapsto> \<lparr> call = set_new, attribute = Map.empty \<rparr>,
                ''frozenset'' \<mapsto> \<lparr> call = frozenset_new, attribute = Map.empty \<rparr>]
      else if name = ''datetime''
      then Inr [''datetime'' \<mapsto>
                  \<lparr> call = no_call, attribute = [''fromisoformat'' \<mapsto> fromisoformat] \<rparr>,
                ''timedelta'' \<mapsto> \<lparr> call = timedelta_new, attribute = Map.empty \<rparr>]
      else if name = ''app.models''
      then Inr [''Point'' \<mapsto>
                  \<lparr> call = dataclass_new (''app.models'', ''Point'') [''x'', ''y''],
                    attribute = Map.empty \<rparr>,
                ''User'' \<mapsto>
                  \<lparr> call = model_new (''app.models'', ''User'') [''name'', ''tags''],
                    attribute = Map.empty \<rparr>,
                ''Color'' \<mapsto>
                  \<lparr> call = enum_new (''app.models'', ''Color'') [PStr ''red'', PStr ''green''],
                    attribute = Map.empty \<rparr>]
      else Inl (ModuleNotFoundError name))"

definition sample_state :: pyval where
  "sample_state =
     PDict [(''run'', PUUID 0x12345678123456781234567812345678),
            (''tags'', PSet [PStr ''a'', PStr ''b'']),
            (''started'', PDatetime ''2024-01-02T03:04:05+00:00''),
            (''elapsed'', PTimedelta 1 2 3),
            (''color'', PEnum (''app.models'', ''Color'') (PStr ''green'')),
            (''at'', PDataclass (''app.models'', ''Point'') [(''x'', PInt 1), (''y'', PFloat 2)]),
            (''user'', PModel (''app.models'', ''User'')
                         [(''name'', PStr ''ann''), (''tags'', PFrozenset [PInt 1, PInt 2])]),
            (''items'', PList [PNone, PBool True, PStr ''s''])]"


section \<open>The checkpoint store (specification, section 4.2)\<close>

text \<open>
  The checkpoint savers themselves (\<open>langgraph.checkpoint.base\<close>,
  \<open>langgraph.checkpoint.postgres\<close>) are not among the sources: only their test
  (libs/checkpoint-postgres/tests/test_async.py) is. The store below is therefore
  written from the specification; the test supplies the shape of the calls and the
  data of the sample store.

  A config names a thread and, optionally, a namespace and a checkpoint id. A stored
  checkpoint has its address (thread, namespace, id), the id of its parent, and its
  metadata, a mapping from keys to values. The values of the metadata and of the
  writes are of any type with equality.
\<close>

record config =
  thread_id :: string
  checkpoint_ns :: "string option"
  checkpoint_id :: "string option"

record 'v stored_checkpoint =
  sc_thread_id :: string
  sc_checkpoint_ns :: string
  sc_checkpoint_id :: string
  sc_parent_id :: "string option"
  sc_metadata :: "(string \<times> 'v) list"

text \<open>
  A pending write is a channel and a value, stored under the address of its
  checkpoint, the id of its task and its sequence number (section 3: keyed uniquely by
  checkpoint id, task id and sequence).
\<close>

type_synonym write_key = "(string \<times> string option \<times> string option) \<times> string \<times> nat"

record 'v store =
  saved_checkpoints :: "'v stored_checkpoint list"
  pending_writes :: "(write_key \<times> string \<times> 'v) list"

definition address :: "config \<Rightarrow> string \<times> string option \<times> string option" where
  "address c = (thread_id c, checkpoint_ns c, checkpoint_id c)"

text \<open>
  Modelled from the spec: the upsert of one row ("re-submitting the same (taskId,
  sequence) overwrites rather than duplicates"). The saver's table is missing from
  the sources. A row with the key is replaced where it stands; a new key is added at
  the end.
\<close>

fun upsert :: "'k \<Rightarrow> 'a \<Rightarrow> ('k \<times> 'a) list \<Rightarrow> ('k \<times> 'a) list" where
  "upsert k v [] = [(k, v)]"
| "upsert k v ((k', v') # rows) =
     (if k' = k then (k, v) # rows else (k', v') # upsert k v rows)"

text \<open>
  Modelled from the spec: \<open>putWrites(config, writes, taskId)\<close>, missing from the
  sources (\<open>aput_writes\<close> of the saver). The writes are the (channel, value) pairs
  of one task in the order of their emission, as in the test; the sequence number of a
  write is its position.
\<close>

definition put_writes ::
  "'v store \<Rightarrow> config \<Rightarrow> (string \<times> 'v) list \<Rightarrow> string \<Rightarrow> 'v store" where
  "put_writes s c writes task_id =
     s\<lparr> pending_writes :=
          fold (\<lambda>(idx, w). upsert (address c, task_id, idx) w) (enumerate 0 writes)
            (pending_writes s) \<rparr>"

text \<open>
  Modelled from the spec: the filter of \<open>list\<close> ("matches only checkpoints whose
  metadata contains all given key/value pairs (exact equality; missing key excluded)").
\<close>

definition metadata_matches :: "(string \<times> 'v) list \<Rightarrow> (string \<times> 'v) list \<Rightarrow> bool" where
  "metadata_matches metadata flt = list_all (\<lambda>(k, v). map_of metadata k = Some v) flt"

text \<open>
  Modelled from the spec: the scope of \<open>list\<close> ("absence of config.checkpointId
  scopes to the thread (and all namespaces, unless namespace given)"); without a config
  every checkpoint is in scope, as in the calls \<open>alist(None, filter=...)\<close> of the test.
\<close>

definition in_scope :: "config option \<Rightarrow> 'v stored_checkpoint \<Rightarrow> bool" where
  "in_scope cfg ck =
     (case cfg of
        None \<Rightarrow> True
      | Some c \<Rightarrow>
          sc_thread_id ck = thread_id c \<and>
          (case checkpoint_ns c of None \<Rightarrow> True | Some ns \<Rightarrow> sc_checkpoint_ns ck = ns) \<and>
          (case checkpoint_id c of None \<Rightarrow> True | Some i \<Rightarrow> sc_checkpoint_id ck = i))"

text \<open>
  Modelled from the spec: \<open>list(config, filter, before, limit)\<close>, missing from the
  sources (\<open>alist\<close> of the saver). The checkpoints in scope that match the filter and
  whose id is below \<open>before\<close>, newest first (ids are time-ordered and sort
  lexicographically), cut at \<open>limit\<close>.
\<close>

definition list_checkpoints ::
  "'v store \<Rightarrow> config option \<Rightarrow> (string \<times> 'v) list \<Rightarrow> string option \<Rightarrow> nat option
     \<Rightarrow> 'v stored_checkpoint list" where
  "list_checkpoints s cfg flt before limit =
     (let scoped = filter (in_scope cfg) (saved_checkpoints s);
          matched = filter (\<lambda>ck. metadata_matches (sc_metadata ck) flt) scoped;
          bounded = (case before of
                       None \<Rightarrow> matched
                     | Some b \<Rightarrow> filter (\<lambda>ck. sc_checkpoint_id ck < b) matched);
          ordered = rev (sort_key sc_checkpoint_id bounded)
      in case limit of None \<Rightarrow> ordered | Some n \<Rightarrow> take n ordered)"

text \<open>
  The store of \<open>test_asearch\<close>: three checkpoints, in two threads, with the metadata
  of the test. The ids of the first and third checkpoint are made by
  \<open>empty_checkpoint()\<close> in the test; here they are fixed strings.
\<close>

definition test_store :: "pyval store" where
  "test_store =
     \<lparr> saved_checkpoints =
         [\<lparr> sc_thread_id = ''thread-1'', sc_checkpoint_ns = '''', sc_checkpoint_id = ''1ef-a'',
            sc_parent_id = None,
            sc_metadata = [(''source'', PStr ''input''), (''step'', PInt 2),
                           (''writes'', PDict []), (''score'', PInt 1)] \<rparr>,
          \<lparr> sc_thread_id = ''thread-2'', sc_checkpoint_ns = '''', sc_checkpoint_id = ''1ef-b'',
            sc_parent_id = Some ''2'',
            sc_metadata = [(''source'', PStr ''loop''), (''step'', PInt 1),
                           (''writes'', PDict [(''foo'', PStr ''bar'')]), (''score'', PNone)] \<rparr>,
          \<lparr> sc_thread_id = ''thread-2'', sc_checkpoint_ns = ''inner'',
            sc_checkpoint_id = ''1ef-c'', sc_parent_id = Some ''2-inner'',
            sc_metadata = [] \<rparr>],
       pending_writes = [] \<rparr>"


section \<open>The superstep engine (specification, sections 3 and 4.3 to 4.5)\<close>

text \<open>
  The engine itself (\<open>langgraph.pregel\<close>, \<open>langgraph.graph\<close>, \<open>langgraph.types\<close>) is
  not among the sources: only a test that builds two graphs and runs them is
  (libs/langgraph/tests/test_cache.py), and it asserts nothing. The engine below is
  therefore written from the specification, and the two graphs from the test.

  What is left out: every channel is a LastValue; a node body is a function from its
  input to its writes, so it does not fail and there is nothing to retry; a cache entry
  does not expire (there is no clock); there are no interrupts and no dynamic sends, so
  a superstep runs a node at most once. The tasks of a superstep are run one after the
  other in the order the nodes were registered.
\<close>

type_synonym 'v writes = "(string \<times> 'v) list"

record 'v node =
  node_name :: string
  node_triggers :: "string list"
  node_reads :: "string list"
  node_body :: "(string \<times> 'v) list \<Rightarrow> 'v writes"
  node_cache_key :: "((string \<times> 'v) list \<Rightarrow> string) option"

record 'v graph =
  graph_nodes :: "'v node list"
  graph_end :: string
  recursion_limit :: nat

datatype fault = PlanningError | RecursionLimitError

datatype status = PLANNING | DONE | FAILED fault

text \<open>
  One run of a task, as the executor records it: the step, the node, whether the cache
  answered, and the writes handed to the write buffer.
\<close>

record 'v task_run =
  tr_step :: int
  tr_node :: string
  tr_cache_hit :: bool
  tr_writes :: "'v writes"

record 'v checkpoint =
  ck_id :: nat
  ck_parent_id :: "nat option"
  ck_step :: int
  ck_source :: string
  ck_writes :: "(string \<times> 'v writes) list"
  ck_values :: "(string \<times> 'v) list"
  ck_versions :: "(string \<times> nat) list"

text \<open>
  The state of a run. A channel that has been written has a version and a value;
  \<open>versions_seen\<close> is kept for every node and channel; the cache is keyed by node name
  and cache key; \<open>calls\<close> counts the invocations of each node body and \<open>cache_hits\<close>
  the cache hits of each node. The task log and the checkpoints have the newest first.
\<close>

record 'v engine =
  channels :: "(string \<times> nat \<times> 'v) list"
  versions_seen :: "((string \<times> string) \<times> nat) list"
  cache :: "((string \<times> string) \<times> 'v writes) list"
  calls :: "(string \<times> nat) list"
  cache_hits :: "(string \<times> nat) list"
  step :: int
  status :: status
  task_log :: "'v task_run list"
  checkpoints :: "'v checkpoint list"

definition count_of :: "('k \<times> nat) list \<Rightarrow> 'k \<Rightarrow> nat" where
  "count_of m k = (case map_of m k of None \<Rightarrow> 0 | Some n \<Rightarrow> n)"

definition bump :: "'k \<Rightarrow> ('k \<times> nat) list \<Rightarrow> ('k \<times> nat) list" where
  "bump k m = upsert k (Suc (count_of m k)) m"

definition version_of :: "(string \<times> nat \<times> 'v) list \<Rightarrow> string \<Rightarrow> nat" where
  "version_of chans c = (case map_of chans c of None \<Rightarrow> 0 | Some (ver, v) \<Rightarrow> ver)"

definition value_of :: "(string \<times> nat \<times> 'v) list \<Rightarrow> string \<Rightarrow> 'v option" where
  "value_of chans c = (case map_of chans c of None \<Rightarrow> None | Some (ver, v) \<Rightarrow> Some v)"

text \<open>
  Modelled from the spec: the update of a LastValue channel (section 3: the version
  increases by exactly 1 on every accepted update). The channel classes are missing
  from the sources.
\<close>

definition write_channel ::
  "string \<times> 'v \<Rightarrow> (string \<times> nat \<times> 'v) list \<Rightarrow> (string \<times> nat \<times> 'v) list" where
  "write_channel w chans = upsert (fst w) (Suc (version_of chans (fst w)), snd w) chans"

text \<open>
  Modelled from the spec: the task planner (section 4.3), missing from the sources. A
  node is runnable when one of its trigger channels has a version above the one the
  node has seen; its input is read from the channels it consumes, and a consumed
  channel without a value makes the planner skip the node.
\<close>

definition triggered :: "'v engine \<Rightarrow> 'v node \<Rightarrow> bool" where
  "triggered s n =
     list_ex (\<lambda>c. count_of (versions_seen s) (node_name n, c) < version_of (channels s) c)
       (node_triggers n)"

definition task_input :: "'v engine \<Rightarrow> 'v node \<Rightarrow> (string \<times> 'v) list option" where
  "task_input s n =
     those (map (\<lambda>c. map_option (Pair c) (value_of (channels s) c)) (node_reads n))"

definition plan :: "'v graph \<Rightarrow> 'v engine \<Rightarrow> ('v node \<times> (string \<times> 'v) list) list" where
  "plan g s =
     List.map_filter
       (\<lambda>n. if triggered s n then map_option (Pair n) (task_input s n) else None)
       (graph_nodes g)"

text \<open>
  Modelled from the spec: the task executor (section 4.4, steps 1, 2 and 4), missing
  from the sources. With a cache policy the key is computed from the input; on a hit
  the recorded writes are replayed and the body is not invoked; on a miss the body is
  invoked and its writes are recorded under the key (section 3: a cache entry is keyed
  by node name and cache key and holds the recorded output writes).
\<close>

definition invoke :: "'v engine \<Rightarrow> 'v node \<Rightarrow> (string \<times> 'v) list \<Rightarrow> 'v engine" where
  "invoke s n input =
     s\<lparr> calls := bump (node_name n) (calls s),
        task_log := \<lparr> tr_step = step s, tr_node = node_name n, tr_cache_hit = False,
                      tr_writes = node_body n input \<rparr> # task_log s \<rparr>"

definition run_task :: "'v engine \<Rightarrow> 'v node \<times> (string \<times> 'v) list \<Rightarrow> 'v engine" where
  "run_task s task =
     (let n = fst task; input = snd task
      in case node_cache_key n of
           None \<Rightarrow> invoke s n input
         | Some key_fn \<Rightarrow>
             (case map_of (cache s) (node_name n, key_fn input) of
                Some recorded \<Rightarrow>
                  s\<lparr> cache_hits := bump (node_name n) (cache_hits s),
                     task_log := \<lparr> tr_step = step s, tr_node = node_name n,
                                   tr_cache_hit = True, tr_writes = recorded \<rparr> # task_log s \<rparr>
              | None \<Rightarrow>
                  (invoke s n input)
                    \<lparr> cache := upsert (node_name n, key_fn input) (node_body n input)
                                 (cache s) \<rparr>))"

definition execute :: "'v engine \<Rightarrow> ('v node \<times> (string \<times> 'v) list) list \<Rightarrow> 'v engine" where
  "execute s tasks = foldl run_task s tasks"

text \<open>
  Modelled from the spec: the commit of a superstep (section 4.5, COMMITTING), missing
  from the sources. \<open>s0\<close> is the state the step was planned in and \<open>s\<close> the state
  after its tasks have run. Two writes of one step to one channel are a PlanningError
  (section 3, LastValue) and nothing is committed. Otherwise the writes are applied,
  each node that ran has the versions of its trigger channels recorded as seen, a
  checkpoint of source \<open>loop\<close> is persisted with the previous checkpoint as its
  parent, and the run is DONE when the terminal channel has been written.
\<close>

definition step_runs :: "'v engine \<Rightarrow> nat \<Rightarrow> 'v task_run list" where
  "step_runs s k = rev (take k (task_log s))"

definition mark_seen ::
  "'v engine \<Rightarrow> 'v node \<Rightarrow> ((string \<times> string) \<times> nat) list
     \<Rightarrow> ((string \<times> string) \<times> nat) list" where
  "mark_seen s0 n seen =
     fold (\<lambda>c. upsert (node_name n, c) (version_of (channels s0) c)) (node_triggers n) seen"

definition commit ::
  "'v graph \<Rightarrow> 'v engine \<Rightarrow> 'v engine \<Rightarrow> ('v node \<times> (string \<times> 'v) list) list \<Rightarrow> 'v engine" where
  "commit g s0 s tasks =
     (let runs = step_runs s (length tasks);
          buffer = concat (map tr_writes runs)
      in if \<not> distinct (map fst buffer) then s\<lparr> status := FAILED PlanningError \<rparr>
         else
           (let chans = fold write_channel buffer (channels s)
            in s\<lparr> channels := chans,
                  versions_seen := fold (\<lambda>t. mark_seen s0 (fst t)) tasks (versions_seen s),
                  checkpoints :=
                    \<lparr> ck_id = length (checkpoints s),
                      ck_parent_id = map_option ck_id (case checkpoints s of
                                                         [] \<Rightarrow> None | c # cs \<Rightarrow> Some c),
                      ck_step = step s,
                      ck_source = ''loop'',
                      ck_writes = map (\<lambda>r. (tr_node r, tr_writes r)) runs,
                      ck_values = map (\<lambda>(c, ver, v). (c, v)) chans,
                      ck_versions = map (\<lambda>(c, ver, v). (c, ver)) chans \<rparr> # checkpoints s,
                  step := step s + 1,
                  status := (if graph_end g \<in> set (map fst buffer) then DONE else PLANNING) \<rparr>))"

text \<open>
  Modelled from the spec: one turn of the loop (section 4.5), missing from the
  sources. PLANNING with no task is DONE; a task beyond the recursion limit is a
  RecursionLimitError; otherwise the tasks are executed and the step is committed.
\<close>

definition superstep :: "'v graph \<Rightarrow> 'v engine \<Rightarrow> 'v engine" where
  "superstep g s =
     (if status s \<noteq> PLANNING then s
      else
        (let tasks = plan g s
         in if tasks = [] then s\<lparr> status := DONE \<rparr>
            else if int (recursion_limit g) \<le> step s
            then s\<lparr> status := FAILED RecursionLimitError \<rparr>
            else commit g s (execute s tasks) tasks))"

text \<open>
  Modelled from the spec: the start of a run (section 4.5: the input is written into
  the entry channels and a checkpoint of source \<open>input\<close> is persisted at step -1).
  The input writes are the values of the state channels and the trigger of the entry
  node. The cache is empty.
\<close>

definition initial :: "'v writes \<Rightarrow> 'v engine" where
  "initial input =
     (let chans = fold write_channel input []
      in \<lparr> channels = chans, versions_seen = [], cache = [], calls = [], cache_hits = [],
           step = 0, status = PLANNING, task_log = [],
           checkpoints =
             [\<lparr> ck_id = 0, ck_parent_id = None, ck_step = -1, ck_source = ''input'',
                ck_writes = [], ck_values = map (\<lambda>(c, ver, v). (c, v)) chans,
                ck_versions = map (\<lambda>(c, ver, v). (c, ver)) chans \<rparr>] \<rparr>)"

fun run_steps :: "nat \<Rightarrow> 'v graph \<Rightarrow> 'v engine \<Rightarrow> 'v engine" where
  "run_steps 0 g s = s"
| "run_steps (Suc k) g s = run_steps k g (superstep g s)"

text \<open>
  A run: within the recursion limit every turn but the last commits a step, so one
  turn more than the limit ends the run.
\<close>

definition run :: "'v graph \<Rightarrow> 'v writes \<Rightarrow> 'v engine" where
  "run g input = run_steps (Suc (recursion_limit g)) g (initial input)"

subsection \<open>The graphs of the test\<close>

text \<open>\<open>str(i)\<close> for an integer.\<close>

fun show_nat :: "nat \<Rightarrow> string" where
  "show_nat n =
     (if n < 10 then [''0123456789'' ! n] else show_nat (n div 10) @ [''0123456789'' ! (n mod 10)])"

declare show_nat.simps [simp del]

definition show_int :: "int \<Rightarrow> string" where
  "show_int i = (if i < 0 then ''-'' @ show_nat (nat (- i)) else show_nat (nat i))"

text \<open>
  The graph of \<open>test_postgres\<close> and \<open>test_call_count\<close>: the state has the keys
  \<open>foo\<close>, \<open>bar\<close> and \<open>ra\<close>; \<open>add_two\<close> returns \<open>ra + 1\<close> and has an edge to
  \<open>subtract_one\<close>; \<open>subtract_one\<close> returns \<open>foo + 2\<close> and \<open>ra + 2\<close> and has the
  conditional edge that ends the run when the new \<open>foo\<close> is at least 10 and goes to
  \<open>add_two\<close> otherwise; \<open>add_two\<close> is the entry point. An edge is a channel that
  triggers its target (the value written to it is not read; it is 0 here). The two
  tests differ in the cache key of \<open>add_two\<close>, which is the parameter.
\<close>

definition state_keys :: "string list" where
  "state_keys = [''foo'', ''bar'', ''ra'']"

definition add_two :: "((string \<times> int) list \<Rightarrow> string) \<Rightarrow> int node" where
  "add_two cache_key =
     \<lparr> node_name = ''add_two'',
       node_triggers = [''to:add_two''],
       node_reads = state_keys,
       node_body = (\<lambda>x. case map_of x ''ra'' of
                           None \<Rightarrow> []
                         | Some ra \<Rightarrow> [(''ra'', ra + 1), (''to:subtract_one'', 0)]),
       node_cache_key = Some cache_key \<rparr>"

definition subtract_one :: "int node" where
  "subtract_one =
     \<lparr> node_name = ''subtract_one'',
       node_triggers = [''to:subtract_one''],
       node_reads = state_keys,
       node_body = (\<lambda>x. case (map_of x ''foo'', map_of x ''ra'') of
                           (Some foo, Some ra) \<Rightarrow>
                             [(''foo'', foo + 2), (''ra'', ra + 2),
                              (if foo + 2 \<ge> 10 then ''__end__'' else ''to:add_two'', 0)]
                         | _ \<Rightarrow> []),
       node_cache_key = None \<rparr>"

definition test_graph :: "((string \<times> int) list \<Rightarrow> string) \<Rightarrow> int graph" where
  "test_graph cache_key =
     \<lparr> graph_nodes = [add_two cache_key, subtract_one], graph_end = ''__end__'',
       recursion_limit = 25 \<rparr>"

definition test_input :: "int writes" where
  "test_input = [(''foo'', 1), (''bar'', 1), (''ra'', 1), (''to:add_two'', 0)]"

definition key_of_ra :: "(string \<times> int) list \<Rightarrow> string" where
  "key_of_ra inputs = (case map_of inputs ''ra'' of None \<Rightarrow> '''' | Some ra \<Rightarrow> show_int ra)"

definition key_empty :: "(string \<times> int) list \<Rightarrow> string" where
  "key_empty inputs = ''''"

definition postgres_run :: "nat \<Rightarrow> int engine" where
  "postgres_run k = run_steps k (test_graph key_of_ra) (initial test_input)"

definition call_count_run :: "nat \<Rightarrow> int engine" where
  "call_count_run k = run_steps k (test_graph key_empty) (initial test_input)"

subsection \<open>The runs of one node\<close>

definition runs_of :: "string \<Rightarrow> 'v engine \<Rightarrow> 'v task_run list" where
  "runs_of n s = filter (\<lambda>r. tr_node r = n) (task_log s)"

text \<open>
  What the cache, the counters, the task log and the checkpoints say of a node \<open>n\<close>
  whose cache key is always the empty string. Before its first run nothing is
  recorded. After it, the body has been invoked once, every run has handed over the
  recorded writes, every run but the first (the last of the log) was a cache hit, and
  the checkpoints hold no other writes for the node.
\<close>

definition cache_inv :: "string \<Rightarrow> 'v engine \<Rightarrow> bool" where
  "cache_inv n s \<longleftrightarrow>
     (case map_of (cache s) (n, '''') of
        None \<Rightarrow>
          runs_of n s = [] \<and> count_of (calls s) n = 0 \<and> count_of (cache_hits s) n = 0
      | Some w \<Rightarrow>
          runs_of n s \<noteq> [] \<and> count_of (calls s) n = 1 \<and>
          Suc (count_of (cache_hits s) n) = length (runs_of n s) \<and>
          list_all (\<lambda>r. tr_writes r = w) (runs_of n s) \<and>
          list_all tr_cache_hit (butlast (runs_of n s)) \<and>
          \<not> tr_cache_hit (last (runs_of n s))) \<and>
     list_all (\<lambda>c. case map_of (ck_writes c) n of
                      None \<Rightarrow> True
                    | Some w \<Rightarrow> map_of (cache s) (n, '''') = Some w)
       (checkpoints s)"


section \<open>Properties of the entrypoint decorator\<close>

text \<open>
  Appending the keyword-only \<open>writer\<close> to parameters that pass the checks passes them
  too, unless \<open>**kwargs\<close> is among the parameters or the name is taken.
\<close>

lemma validate_parameters_append_writer:
  assumes "validate_parameters top_kind seen params ps = Inr ps"
    and "top_kind \<noteq> VAR_KEYWORD"
    and "VAR_KEYWORD \<notin> set (map param_kind ps)"
    and "''writer'' \<notin> set params \<union> set (map param_name ps)"
  shows "validate_parameters top_kind seen params (ps @ [extra_param]) =
           Inr (ps @ [extra_param])"
  using assms
proof (induction ps arbitrary: top_kind seen params)
  case Nil
  then show ?case
    by (cases top_kind) (simp_all add: extra_param_def)
next
  case (Cons p ps)
  let ?seen = "seen \<or> (param_kind p \<in> {POSITIONAL_ONLY, POSITIONAL_OR_KEYWORD}
                                  \<and> param_has_default p)"
  from Cons.prems(1) have checks: "\<not> kind_value (param_kind p) < kind_value top_kind"
      "\<not> (param_kind p \<in> {POSITIONAL_ONLY, POSITIONAL_OR_KEYWORD}
              \<and> \<not> param_has_default p \<and> seen)"
      "param_name p \<notin> set params"
    and rest: "validate_parameters (param_kind p) ?seen (params @ [param_name p]) ps = Inr ps"
    by (auto split: if_splits sum.splits simp: map_sum_def)
  have "validate_parameters (param_kind p) ?seen (params @ [param_name p])
      (ps @ [extra_param]) = Inr (ps @ [extra_param])"
    using rest Cons.prems(3,4) by (intro Cons.IH) auto
  with checks show ?case
    by simp
qed

lemma wrap_func_succeeds:
  assumes "valid_signature (parameters func)"
    and "func_kind func = PlainFunction \<or> ''writer'' \<in> set (map param_name (parameters func))
         \<or> \<not> has_var_keyword (parameters func)"
  shows "\<exists>w mode. wrap_func func = Inr (w, mode)"
proof (cases "func_kind func = PlainFunction \<or>
    ''writer'' \<in> set (map param_name (parameters func))")
  case True
  then show ?thesis
    by (auto simp: wrap_func_def split: func_kind.splits)
next
  case False
  with assms have "signature_replace (parameters func @ [extra_param]) =
      Inr (parameters func @ [extra_param])"
    unfolding signature_replace_def valid_signature_def has_var_keyword_def
    by (intro validate_parameters_append_writer) auto
  then show ?thesis
    by (simp add: wrap_func_def bind_err_def split: func_kind.splits)
qed

text \<open>
  What the decorator does apart from the wrapper: a function with no parameter makes it
  raise ValueError("Entrypoint function must have at least one parameter") and no graph
  is returned. For a function with at least one parameter, other than a generator or
  async generator function that has \<open>**kwargs\<close> and no parameter named \<open>writer\<close>, the
  decorator returns a graph; its input type is the annotation of the first parameter,
  or Any when that is empty, and its output type is the return annotation, or Any when
  that is empty. The two channels are told apart by their names, so the names START
  and END differ.
\<close>

lemma entrypoint_signature:
  assumes "valid_signature (parameters func)"
    and "func_kind func = PlainFunction \<or> ''writer'' \<in> set (map param_name (parameters func))
         \<or> \<not> has_var_keyword (parameters func)"
  shows "(parameters func = [] \<longrightarrow>
      entrypoint c g cp st cs func =
        Inl (ValueError ''Entrypoint function must have at least one parameter'')) \<and>
   (parameters func \<noteq> [] \<and> START c \<noteq> END c \<longrightarrow>
      (\<exists>gr. entrypoint c g cp st cs func = Inr gr \<and>
            input_type_of gr = Some (or_any (param_annotation (hd (parameters func)))) \<and>
            output_type_of gr = Some (or_any (return_annotation func))))"
proof -
  from wrap_func_succeeds [OF assms] obtain w mode where "wrap_func func = Inr (w, mode)"
    by blast
  then show ?thesis
    by (cases "parameters func")
       (auto simp: entrypoint_def bind_err_def Let_def input_type_of_def output_type_of_def
          or_any_def)
qed

lemma valid_signature_samples:
  "valid_signature (parameters f_no_params)"
  "valid_signature (parameters g_two_params)"
  "valid_signature (parameters g_kw)"
  by (simp_all add: valid_signature_def signature_replace_def f_no_params_def
      g_two_params_def g_kw_def positional_def var_keyword_def)

lemma entrypoint_signature_samples:
  "entrypoint langgraph_constants Some (None :: unit option) (None :: unit option)
       (None :: unit option) f_no_params =
     Inl (ValueError ''Entrypoint function must have at least one parameter'') \<and>
   (\<exists>gr. entrypoint langgraph_constants Some (None :: unit option) (None :: unit option)
       (None :: unit option) g_two_params = Inr gr \<and>
      input_type_of gr = Some (Named ''int'') \<and> output_type_of gr = Some AnyType)"
proof -
  have f: "func_kind f_no_params = PlainFunction \<or>
      ''writer'' \<in> set (map param_name (parameters f_no_params)) \<or>
      \<not> has_var_keyword (parameters f_no_params)"
    by (simp add: f_no_params_def)
  have g: "func_kind g_two_params = PlainFunction \<or>
      ''writer'' \<in> set (map param_name (parameters g_two_params)) \<or>
      \<not> has_var_keyword (parameters g_two_params)"
    by (simp add: has_var_keyword_def g_two_params_def positional_def)
  have params: "parameters f_no_params = []"
      "parameters g_two_params \<noteq> []"
      "param_annotation (hd (parameters g_two_params)) = Named ''int''"
      "return_annotation g_two_params = SigEmpty"
    by (simp_all add: f_no_params_def g_two_params_def positional_def)
  have "entrypoint langgraph_constants Some (None :: unit option) (None :: unit option)
       (None :: unit option) f_no_params =
     Inl (ValueError ''Entrypoint function must have at least one parameter'')"
    using entrypoint_signature [OF valid_signature_samples(1) f,
        where c = langgraph_constants and g = Some and cp = "None :: unit option"
          and st = "None :: unit option" and cs = "None :: unit option"]
    by (simp add: params)
  moreover have "START langgraph_constants \<noteq> END langgraph_constants"
    by (simp add: langgraph_constants_def)
  then have "\<exists>gr. entrypoint langgraph_constants Some (None :: unit option)
       (None :: unit option) (None :: unit option) g_two_params = Inr gr \<and>
      input_type_of gr = Some (Named ''int'') \<and> output_type_of gr = Some AnyType"
    using entrypoint_signature [OF valid_signature_samples(2) g,
        where c = langgraph_constants and g = Some and cp = "None :: unit option"
          and st = "None :: unit option" and cs = "None :: unit option"]
    by (simp add: params or_any_def)
  ultimately show ?thesis
    by simp
qed

text \<open>
  C9. The claim promises a graph for every function with at least one parameter. For
  the generator function \<open>def g_kw(x, **kw): yield x\<close>, whose signature is valid and
  has two parameters, the decorator appends the keyword-only \<open>writer\<close> after
  \<open>**kw\<close>, \<open>original_sig.replace\<close> raises ValueError, and no graph is returned.
\<close>

theorem entrypoint_generator_kwargs_raises:
  "valid_signature (parameters g_kw) \<and> length (parameters g_kw) = 2 \<and>
   entrypoint c g cp st cs g_kw =
     Inl (ValueError
       ''wrong parameter order: variadic keyword parameter before keyword-only parameter'')"
  by (simp add: valid_signature_def signature_replace_def g_kw_def positional_def
      var_keyword_def entrypoint_def wrap_func_def extra_param_def bind_err_def)

section \<open>Properties of the serializer\<close>

lemma bind_err_Inl: "bind_err (Inl e) f = Inl e"
  by (simp add: bind_err_def)

lemma bind_err_Inr: "bind_err (Inr x) f = f x"
  by (simp add: bind_err_def)

subsection \<open>The two texts of a UUID\<close>

lemma hex_pad_numeral:
  "hex_pad (numeral k) n = hex_pad (pred_numeral k) (n div 16) @ [hex_digit (n mod 16)]"
  by (subst numeral_eq_Suc) (rule hex_pad.simps)

lemma length_hex_pad: "length (hex_pad k n) = k"
  by (induction k arbitrary: n) auto

lemma hex_digit_no_hyphen:
  assumes "d < 16"
  shows "hex_digit d \<noteq> CHR ''-''"
proof -
  from assms have "d \<in> {0, 1, 2, 3, 4, 5, 6, 7, 8, 9, 10, 11, 12, 13, 14, 15}"
    by simp arith
  then show ?thesis
    by (auto simp: hex_digit_def)
qed

lemma hex_pad_no_hyphen: "CHR ''-'' \<notin> set (hex_pad k n)"
proof (induction k arbitrary: n)
  case 0
  show ?case by simp
next
  case (Suc k)
  have "n mod 16 < 16" by simp
  then have "hex_digit (n mod 16) \<noteq> CHR ''-''" by (rule hex_digit_no_hyphen)
  with Suc show ?case by auto
qed

lemma filter_id_no_hyphen:
  "CHR ''-'' \<notin> set s \<Longrightarrow> filter (\<lambda>c. c \<noteq> CHR ''-'') s = s"
  by (induction s) auto

lemma take_drop_pieces:
  "take 8 h @ take 4 (drop 8 h) @ take 4 (drop 12 h) @ take 4 (drop 16 h) @ drop 20 h = h"
proof -
  have a: "take 4 (drop 16 h) @ drop 20 h = drop 16 h"
    using append_take_drop_id [of 4 "drop 16 h"] by simp
  have b: "take 4 (drop 12 h) @ drop 16 h = drop 12 h"
    using append_take_drop_id [of 4 "drop 12 h"] by simp
  have c: "take 4 (drop 8 h) @ drop 12 h = drop 8 h"
    using append_take_drop_id [of 4 "drop 8 h"] by simp
  show ?thesis
    by (simp only: a b c append_take_drop_id)
qed

lemma uuid_str_without_hyphens: "filter (\<lambda>c. c \<noteq> CHR ''-'') (uuid_str u) = uuid_hex u"
proof -
  have no: "CHR ''-'' \<notin> set (uuid_hex u)"
    by (simp add: uuid_hex_def hex_pad_no_hyphen)
  have piece: "filter (\<lambda>c. c \<noteq> CHR ''-'') s = s" if "set s \<subseteq> set (uuid_hex u)" for s
    using that no by (intro filter_id_no_hyphen) auto
  have "filter (\<lambda>c. c \<noteq> CHR ''-'') (uuid_str u) =
        take 8 (uuid_hex u) @ take 4 (drop 8 (uuid_hex u)) @ take 4 (drop 12 (uuid_hex u)) @
        take 4 (drop 16 (uuid_hex u)) @ drop 20 (uuid_hex u)"
    by (simp add: uuid_str_def Let_def piece set_take_subset set_drop_subset
        subset_trans [OF set_take_subset set_drop_subset])
  then show ?thesis
    by (simp only: take_drop_pieces)
qed

text \<open>
  C7, as stated, at the UUID 12345678-1234-5678-1234-567812345678: the positional
  argument of the envelope is the 32 digits without hyphens, which is not the
  identifier's string form.
\<close>

theorem uuid_argument_counterexample:
  "default_hook (PUUID 0x12345678123456781234567812345678) =
     Inr (PDict (envelope [''uuid'', ''UUID''] PNone
            (PList [PStr ''12345678123456781234567812345678'']) (PDict []))) \<and>
   uuid_str 0x12345678123456781234567812345678 = ''12345678-1234-5678-1234-567812345678'' \<and>
   default_hook (PUUID 0x12345678123456781234567812345678) \<noteq>
     Inr (PDict (envelope [''uuid'', ''UUID''] PNone
            (PList [PStr (uuid_str 0x12345678123456781234567812345678)]) (PDict [])))"
  by (simp add: encode_constructor_args_def envelope_def uuid_str_def uuid_hex_def
      hex_pad_numeral hex_digit_def)

text \<open>
  C7, amended. Encoding a UUID gives the constructor envelope of \<open>uuid.UUID\<close> with no
  method, no keyword argument and one positional argument: the 32 lower-case
  hexadecimal digits of the identifier (\<open>UUID.hex\<close>), that is, its string form with the
  hyphens left out. \<open>dumps\<close> writes that envelope with its keys sorted.
\<close>

theorem uuid_encoded_by_hex:
  "default_hook (PUUID u) =
     Inr (PDict (envelope [''uuid'', ''UUID''] PNone (PList [PStr (uuid_hex u)]) (PDict []))) \<and>
   dumps (PUUID u) =
     Inr (JObj [(''args'', JArr [JStr (uuid_hex u)]),
                (''id'', JArr [JStr ''uuid'', JStr ''UUID'']),
                (''kwargs'', JObj []),
                (''lc'', JInt 2),
                (''method'', JNull),
                (''type'', JStr ''constructor'')]) \<and>
   length (uuid_hex u) = 32 \<and>
   uuid_hex u = filter (\<lambda>c. c \<noteq> CHR ''-'') (uuid_str u)"
  by (simp add: encode_constructor_args_def envelope_def dumps_def uuid_str_without_hyphens)
     (simp add: uuid_hex_def length_hex_pad)


subsection \<open>Decoding an envelope\<close>

lemma those_str_of_PStr: "those (map (str_of \<circ> PStr) ss) = Some ss"
  by (induction ss) auto

lemma join_strs_PStr: "join_strs sep (map PStr ss) = Inr (join sep ss)"
  by (simp add: join_strs_def those_str_of_PStr)

text \<open>The steps of the reviver on an envelope whose \<open>id\<close> is a list of strings.\<close>

lemma reviver_import_steps:
  assumes "dict_get value ''lc'' = Some (PInt 2)"
    and "dict_get value ''type'' = Some (PStr ''constructor'')"
    and "dict_get value ''id'' = Some (PList (map PStr (mods @ [name])))"
  shows "reviver import_module lc value =
      bind_err (import_module (join ''.'' mods)) (\<lambda>module.
      bind_err (getattr_module module (PStr name)) (\<lambda>cls.
      bind_err (getitem value ''method'') (\<lambda>m.
        if m \<noteq> PNone
        then bind_err (getattr_class cls m) (\<lambda>method. apply_call method value)
        else apply_call (call cls) value)))"
proof -
  have segs: "butlast (map PStr (mods @ [name])) = map PStr mods"
    "last (map PStr (mods @ [name])) = PStr name"
    "map PStr (mods @ [name]) \<noteq> []"
    by (simp_all add: butlast_append)
  show ?thesis
    unfolding reviver_def using assms segs
    by (simp add: getitem_def bind_err_def join_strs_PStr del: map_append)
qed

text \<open>
  C1, as stated. The reviver is not given a registry, so no path is a registered one.
  In a process where \<open>os\<close> can be imported, the envelope with the path
  \<open>["os", "getcwd"]\<close> is decoded by importing \<open>os\<close> and calling \<open>os.getcwd()\<close>:
  decoding returns what the call returns and raises nothing. The path
  \<open>["nosuch", "Thing"]\<close> fails with the ModuleNotFoundError of the import.
\<close>

theorem reviver_unregistered_counterexample:
  "reviver os_env lc_identity
     (envelope [''os'', ''getcwd''] PNone (PList []) (PDict [])) = Inr (PStr ''/root'') \<and>
   loads os_env lc_identity
     (JObj [(''args'', JArr []), (''id'', JArr [JStr ''os'', JStr ''getcwd'']),
            (''kwargs'', JObj []), (''lc'', JInt 2), (''method'', JNull),
            (''type'', JStr ''constructor'')]) = Inr (PStr ''/root'') \<and>
   reviver os_env lc_identity
     (envelope [''nosuch'', ''Thing''] PNone (PList []) (PDict [])) =
     Inl (ModuleNotFoundError ''nosuch'')"
  by (simp add: reviver_def envelope_def dict_get_def getitem_def bind_err_def os_env_def
      lc_identity_def join_strs_def getattr_module_def apply_call_def loads_def
      dict_of_pairs_def)

text \<open>
  C1, amended. An envelope whose \<open>id\<close> is the list of strings \<open>mods @ [name]\<close> is
  decoded by importing the module named \<open>mods\<close> joined with dots and reading \<open>name\<close>
  off it; there is no registry. When the import raises, decoding fails with the
  exception of the import (ModuleNotFoundError for a module that does not exist). When
  the module has no attribute \<open>name\<close>, decoding fails with AttributeError. Otherwise
  the object found, or the attribute of it that \<open>method\<close> names, is called with the
  members of \<open>args\<close> and the items of \<open>kwargs\<close>, and what the call returns or raises
  is the result.
\<close>

theorem reviver_resolves_by_import:
  assumes "dict_get value ''lc'' = Some (PInt 2)"
    and "dict_get value ''type'' = Some (PStr ''constructor'')"
    and "dict_get value ''id'' = Some (PList (map PStr (mods @ [name])))"
  shows "(import_module (join ''.'' mods) = Inl e \<longrightarrow>
            reviver import_module lc value = Inl e) \<and>
         (import_module (join ''.'' mods) = Inr m \<and> m name = None \<longrightarrow>
            reviver import_module lc value = Inl (AttributeError name)) \<and>
         (import_module (join ''.'' mods) = Inr m \<and> m name = Some cls \<and>
          dict_get value ''args'' = Some (PList args) \<and>
          dict_get value ''kwargs'' = Some (PDict kwargs) \<longrightarrow>
            (dict_get value ''method'' = Some PNone \<longrightarrow>
               reviver import_module lc value = call cls args kwargs) \<and>
            (dict_get value ''method'' = Some (PStr f) \<and> attribute cls f = Some g \<longrightarrow>
               reviver import_module lc value = g args kwargs))"
  unfolding reviver_import_steps [OF assms]
  by (auto simp: bind_err_def getattr_module_def getattr_class_def getitem_def
      apply_call_def)

theorem reviver_resolves_by_import_witness:
  "reviver os_env lc_identity
     (envelope [''os'', ''getcwd''] PNone (PList []) (PDict [])) = Inr (PStr ''/root'') \<and>
   reviver os_env lc_identity
     (envelope [''os'', ''fork''] PNone (PList []) (PDict [])) =
     Inl (AttributeError ''fork'') \<and>
   reviver os_env lc_identity
     (envelope [''a'', ''b'', ''C''] PNone (PList []) (PDict [])) =
     Inl (ModuleNotFoundError ''a.b'')"
proof -
  let ?ok = "envelope [''os'', ''getcwd''] PNone (PList []) (PDict [])"
  let ?noattr = "envelope [''os'', ''fork''] PNone (PList []) (PDict [])"
  let ?nomod = "envelope [''a'', ''b'', ''C''] PNone (PList []) (PDict [])"
  let ?os = "\<lambda>a. if a = ''getcwd''
                 then Some \<lparr> call = (\<lambda>args kwargs. Inr (PStr ''/root'')),
                             attribute = (\<lambda>n. None) \<rparr>
                 else None"
  have 1: "reviver os_env lc_identity ?ok = Inr (PStr ''/root'')"
    using reviver_resolves_by_import [of ?ok "[''os'']" "''getcwd''" os_env
        "ModuleNotFoundError ''x''" lc_identity ?os
        "\<lparr> call = (\<lambda>args kwargs. Inr (PStr ''/root'')), attribute = (\<lambda>n. None) \<rparr>"
        "[]" "[]" "''x''" "\<lambda>a k. Inr PNone"]
    by (simp add: envelope_def dict_get_def os_env_def)
  have 2: "reviver os_env lc_identity ?noattr = Inl (AttributeError ''fork'')"
    using reviver_resolves_by_import [of ?noattr "[''os'']" "''fork''" os_env
        "ModuleNotFoundError ''x''" lc_identity ?os
        "\<lparr> call = (\<lambda>args kwargs. Inr (PStr ''/root'')), attribute = (\<lambda>n. None) \<rparr>"
        "[]" "[]" "''x''" "\<lambda>a k. Inr PNone"]
    by (simp add: envelope_def dict_get_def os_env_def)
  have 3: "reviver os_env lc_identity ?nomod = Inl (ModuleNotFoundError ''a.b'')"
    using reviver_resolves_by_import [of ?nomod "[''a'', ''b'']" "''C''" os_env
        "ModuleNotFoundError ''a.b''" lc_identity ?os
        "\<lparr> call = (\<lambda>args kwargs. Inr (PStr ''/root'')), attribute = (\<lambda>n. None) \<rparr>"
        "[]" "[]" "''x''" "\<lambda>a k. Inr PNone"]
    by (simp add: envelope_def dict_get_def os_env_def)
  from 1 2 3 show ?thesis by simp
qed

subsection \<open>Generators\<close>

lemma map_fixed: "map f xs = xs \<Longrightarrow> x \<in> set xs \<Longrightarrow> f x = x"
  by (induction xs) auto

lemma convert_generators_fixed_materialize:
  "convert_generators v = v \<Longrightarrow> materialize v = v"
proof (induction v rule: convert_generators.induct)
  case (2 kvs)
  from 2(2) have fixed: "map (\<lambda>(k, v). (k, convert_generators v)) kvs = kvs"
    by simp
  have "materialize v = v" if "(k, v) \<in> set kvs" for k v
  proof -
    from map_fixed [OF fixed that] have "convert_generators v = v" by simp
    with 2(1) that show ?thesis by blast
  qed
  then have "map (\<lambda>(k, v). (k, materialize v)) kvs = map (\<lambda>kv. kv) kvs"
    by (intro map_cong) auto
  then show ?case by simp
next
  case (3 xs)
  from 3(2) have fixed: "map convert_generators xs = xs" by simp
  have "materialize x = x" if "x \<in> set xs" for x
    using 3(1) [OF that] map_fixed [OF fixed that] by simp
  then have "map materialize xs = map (\<lambda>x. x) xs"
    by (intro map_cong) auto
  then show ?case by simp
next
  case (4 xs)
  from 4(2) have fixed: "map convert_generators xs = xs" by simp
  have "materialize x = x" if "x \<in> set xs" for x
    using 4(1) [OF that] map_fixed [OF fixed that] by simp
  then have "map materialize xs = map (\<lambda>x. x) xs"
    by (intro map_cong) auto
  then show ?case by simp
qed simp_all

lemma convert_generators_materialize:
  "flat_generators v \<Longrightarrow> convert_generators (materialize v) = convert_generators v"
proof (induction v rule: materialize.induct)
  case (1 xs)
  then have fixed: "\<And>x. x \<in> set xs \<Longrightarrow> convert_generators x = x"
    by (simp add: list_all_iff)
  then have "\<And>x. x \<in> set xs \<Longrightarrow> materialize x = x"
    by (simp add: convert_generators_fixed_materialize)
  with fixed have "map (convert_generators \<circ> materialize) xs = map (\<lambda>x. x) xs"
    by (intro map_cong) auto
  then show ?case by simp
next
  case (2 kvs)
  then have "\<And>k v. (k, v) \<in> set kvs \<Longrightarrow>
      convert_generators (materialize v) = convert_generators v"
    by (auto simp: list_all_iff)
  then have "map ((\<lambda>(k, v). (k, convert_generators v)) \<circ> (\<lambda>(k, v). (k, materialize v))) kvs =
      map (\<lambda>(k, v). (k, convert_generators v)) kvs"
    by (intro map_cong) auto
  then show ?case by simp
next
  case (3 xs)
  then have "map (convert_generators \<circ> materialize) xs = map convert_generators xs"
    by (intro map_cong) (auto simp: list_all_iff)
  then show ?case by simp
next
  case (4 xs)
  then have "map (convert_generators \<circ> materialize) xs = map convert_generators xs"
    by (intro map_cong) (auto simp: list_all_iff)
  then show ?case by simp
qed simp_all

text \<open>
  Where no generator yields a value that itself holds a generator, \<open>dumps\<close> does write
  what it writes for the value with every generator replaced by the list of its
  elements.
\<close>

lemma dumps_materialize_flat: "flat_generators v \<Longrightarrow> dumps v = dumps (materialize v)"
  by (simp add: dumps_def convert_generators_materialize)

text \<open>
  C8, at a generator that yields a generator. \<open>_convert_generators\<close> replaces the
  outer generator by \<open>list(obj)\<close> and does not convert the members of that list, as
  its branches for lists, tuples and dictionaries do; the inner generator reaches the
  encoder, which raises TypeError. The same value with each generator replaced by the
  list of its elements is written as \<open>[[1]]\<close>.
\<close>

theorem nested_generator_not_materialized:
  "dumps (PGen [PGen [PInt 1]]) =
     Inl (TypeError ''Object of type generator is not JSON serializable'') \<and>
   materialize (PGen [PGen [PInt 1]]) = PList [PList [PInt 1]] \<and>
   dumps (PList [PList [PInt 1]]) = Inr (JArr [JArr [JInt 1]]) \<and>
   dumps (PList [PGen [PInt 1]]) = Inr (JArr [JArr [JInt 1]])"
  by (simp add: dumps_def)


subsection \<open>Sorted keys\<close>

lemma insort_key_map_values:
  assumes "\<And>x. fst (f x) = fst x"
  shows "insort_key fst (f x) (map f ys) = map f (insort_key fst x ys)"
  by (induction ys) (simp_all add: assms)

lemma sort_key_map_values:
  assumes "\<And>x. fst (f x) = fst x"
  shows "sort_key fst (map f xs) = map f (sort_key fst xs)"
  by (induction xs) (simp_all add: insort_key_map_values [OF assms])

lemma sort_key_twice: "sort_key fst (sort_key fst xs) = sort_key fst xs"
  by (simp add: sort_key_id_if_sorted)

lemma sort_key_determined:
  assumes "distinct (map fst xs)" and "distinct (map fst ys)" and "map_of xs = map_of ys"
  shows "sort_key fst xs = sort_key fst ys"
proof -
  from assms have "set xs = set ys"
    by (simp add: map_of_inject_set)
  moreover from assms have "distinct xs" and "distinct ys"
    by (simp_all add: distinct_map)
  ultimately have "mset xs = mset ys"
    by (simp add: set_eq_iff_mset_eq_distinct)
  moreover from assms have "inj_on fst (set xs)"
    by (simp add: distinct_map)
  ultimately show ?thesis
    by (intro sort_key_inj_key_eq) simp_all
qed

lemma all_ok_map_PStr: "all_ok (map (json_encode \<circ> PStr) ss) = Inr (map JStr ss)"
  by (induction ss) simp_all

lemma json_encode_path: "json_encode (PList (map PStr ss)) = Inr (JArr (map JStr ss))"
  by (simp add: all_ok_map_PStr)

text \<open>What the encoder writes for an envelope: the six keys in their sorted order.\<close>

lemma json_encode_six:
  "json_encode (PDict [(''lc'', PInt 2), (''type'', PStr ''constructor''),
                       (''id'', PList (map PStr ss)), (''method'', mv),
                       (''args'', av), (''kwargs'', kv)]) =
     bind_err (json_encode av) (\<lambda>ja.
     bind_err (json_encode kv) (\<lambda>jk.
     bind_err (json_encode mv) (\<lambda>jm.
       Inr (JObj [(''args'', ja), (''id'', JArr (map JStr ss)), (''kwargs'', jk),
                  (''lc'', JInt 2), (''method'', jm), (''type'', JStr ''constructor'')]))))"
  by (cases "json_encode av"; cases "json_encode kv"; cases "json_encode mv")
     (simp_all add: all_ok_map_PStr bind_err_def)

lemma json_encode_envelope:
  "json_encode (encode_constructor_args c m a k) =
     bind_err (json_encode (case a of None \<Rightarrow> PList [] | Some x \<Rightarrow> x)) (\<lambda>ja.
     bind_err (json_encode (case k of None \<Rightarrow> PDict [] | Some x \<Rightarrow> x)) (\<lambda>jk.
       Inr (JObj [(''args'', ja),
                  (''id'', JArr (map JStr (split_on CHR ''.'' (fst c) @ [snd c]))),
                  (''kwargs'', jk),
                  (''lc'', JInt 2),
                  (''method'', (case m of None \<Rightarrow> JNull | Some s \<Rightarrow> JStr s)),
                  (''type'', JStr ''constructor'')])))"
  unfolding encode_constructor_args_def json_encode_six
  by (cases m) (simp_all add: bind_err_def)

lemma json_encode_sort_keys: "json_encode (sort_keys v) = json_encode v"
proof (induction v)
  case (PList xs)
  then have eq: "map (json_encode \<circ> sort_keys) xs = map json_encode xs"
    by (intro map_cong) auto
  show ?case by (simp add: eq)
next
  case (PTuple xs)
  then have eq: "map (json_encode \<circ> sort_keys) xs = map json_encode xs"
    by (intro map_cong) auto
  show ?case by (simp add: eq)
next
  case (PDict kvs)
  let ?f = "\<lambda>(k, v). (k, sort_keys v)"
  let ?enc = "\<lambda>(k, v). map_sum id (Pair k) (json_encode v)"
  have a: "sort_key fst (sort_key fst (map ?f kvs)) = map ?f (sort_key fst kvs)"
    by (simp add: sort_key_twice sort_key_map_values split_beta)
  have b: "map (?enc \<circ> ?f) (sort_key fst kvs) = map ?enc (sort_key fst kvs)"
    using PDict by (intro map_cong) auto
  show ?case by (simp add: a b)
next
  case (PGen xs)
  show ?case by simp
next
  case (PSerializable v)
  then show ?case by simp
next
  case (PModel c kvs)
  let ?f = "\<lambda>(k, v). (k, sort_keys v)"
  let ?enc = "\<lambda>(k, v). map_sum id (Pair k) (json_encode v)"
  have a: "sort_key fst (map ?f kvs) = map ?f (sort_key fst kvs)"
    by (simp add: sort_key_map_values split_beta)
  have b: "map (?enc \<circ> ?f) (sort_key fst kvs) = map ?enc (sort_key fst kvs)"
    using PModel by (intro map_cong) auto
  show ?case by (simp add: json_encode_envelope a b)
next
  case (PSet xs)
  then have eq: "map (json_encode \<circ> sort_keys) xs = map json_encode xs"
    by (intro map_cong) auto
  show ?case by (simp add: json_encode_envelope eq)
next
  case (PFrozenset xs)
  then have eq: "map (json_encode \<circ> sort_keys) xs = map json_encode xs"
    by (intro map_cong) auto
  show ?case by (simp add: json_encode_envelope eq)
next
  case (PTimezone xs)
  then have eq: "map (json_encode \<circ> sort_keys) xs = map json_encode xs"
    by (intro map_cong) auto
  show ?case by (simp add: json_encode_envelope eq)
next
  case (PDataclass c kvs)
  let ?f = "\<lambda>(k, v). (k, sort_keys v)"
  let ?enc = "\<lambda>(k, v). map_sum id (Pair k) (json_encode v)"
  have a: "sort_key fst (map ?f kvs) = map ?f (sort_key fst kvs)"
    by (simp add: sort_key_map_values split_beta)
  have b: "map (?enc \<circ> ?f) (sort_key fst kvs) = map ?enc (sort_key fst kvs)"
    using PDataclass by (intro map_cong) auto
  show ?case by (simp add: json_encode_envelope a b)
next
  case (PEnum c v)
  then show ?case by (simp add: json_encode_envelope)
qed simp_all

lemma convert_generators_sort_keys:
  "convert_generators (sort_keys v) = sort_keys (convert_generators v)"
proof (induction v)
  case (PList xs)
  then have eq: "map (convert_generators \<circ> sort_keys) xs = map (sort_keys \<circ> convert_generators) xs"
    by (intro map_cong) auto
  show ?case by (simp add: eq)
next
  case (PTuple xs)
  then have eq: "map (convert_generators \<circ> sort_keys) xs = map (sort_keys \<circ> convert_generators) xs"
    by (intro map_cong) auto
  show ?case by (simp add: eq)
next
  case (PDict kvs)
  let ?f = "\<lambda>(k, v). (k, sort_keys v)"
  let ?g = "\<lambda>(k, v). (k, convert_generators v)"
  have a: "map ?g (sort_key fst (map ?f kvs)) = sort_key fst (map ?g (map ?f kvs))"
    by (simp add: sort_key_map_values [symmetric] split_beta)
  have b: "map (?g \<circ> ?f) kvs = map (?f \<circ> ?g) kvs"
    using PDict by (intro map_cong) auto
  show ?case by (simp add: a b)
qed simp_all

lemma dumps_sort_keys: "dumps (sort_keys v) = dumps v"
  by (simp add: dumps_def convert_generators_sort_keys json_encode_sort_keys)

text \<open>
  C10, as stated. The dictionaries \<open>{"s": {0, 8}}\<close> and \<open>{"s": {8, 0}}\<close> are
  equal as mappings: they bind the one key to sets with the same members. A set is
  written as the list of its members in the order its iteration gives them, which is
  0, 8 for the first and 8, 0 for the second, and sorting the keys does not change
  that: the two documents differ.
\<close>

theorem dumps_set_order_counterexample:
  "abs_val (PDict [(''s'', PSet [PInt 0, PInt 8])]) =
     abs_val (PDict [(''s'', PSet [PInt 8, PInt 0])]) \<and>
   dumps (PDict [(''s'', PSet [PInt 0, PInt 8])]) =
     Inr (JObj [(''s'', JObj [(''args'', JArr [JArr [JInt 0, JInt 8]]),
                              (''id'', JArr [JStr ''builtins'', JStr ''set'']),
                              (''kwargs'', JObj []), (''lc'', JInt 2), (''method'', JNull),
                              (''type'', JStr ''constructor'')])]) \<and>
   dumps (PDict [(''s'', PSet [PInt 8, PInt 0])]) =
     Inr (JObj [(''s'', JObj [(''args'', JArr [JArr [JInt 8, JInt 0]]),
                              (''id'', JArr [JStr ''builtins'', JStr ''set'']),
                              (''kwargs'', JObj []), (''lc'', JInt 2), (''method'', JNull),
                              (''type'', JStr ''constructor'')])]) \<and>
   dumps (PDict [(''s'', PSet [PInt 0, PInt 8])]) \<noteq>
     dumps (PDict [(''s'', PSet [PInt 8, PInt 0])])"
proof -
  have "fset_of_list [AInt 0, AInt 8] = fset_of_list [AInt 8, AInt 0]"
    by (simp add: finsert_commute)
  then show ?thesis
    by (simp add: dumps_def encode_constructor_args_def)
qed

text \<open>
  C10, amended. Two dictionaries are written alike, whatever the insertion order of
  their keys, when they bind the same keys to values that are the same up to the
  insertion order of the dictionaries inside them, at any depth. The dictionaries
  have distinct keys, as every Python dictionary has. Two sets in them are the same
  when their iteration gives the same members in the same order.
\<close>

theorem dumps_key_order_independent:
  assumes "distinct (map fst d1)" and "distinct (map fst d2)"
    and "map_of (map (\<lambda>(k, v). (k, sort_keys v)) d1) =
         map_of (map (\<lambda>(k, v). (k, sort_keys v)) d2)"
  shows "dumps (PDict d1) = dumps (PDict d2)"
proof -
  let ?f = "\<lambda>(k, v). (k, sort_keys v)"
  have keys: "map fst (map ?f d) = map fst d" for d :: "(string \<times> pyval) list"
    by (simp add: split_beta)
  from assms have "sort_key fst (map ?f d1) = sort_key fst (map ?f d2)"
    by (intro sort_key_determined) (simp_all only: keys)
  then have "sort_keys (PDict d1) = sort_keys (PDict d2)"
    by simp
  then have "dumps (sort_keys (PDict d1)) = dumps (sort_keys (PDict d2))"
    by (rule arg_cong)
  then show ?thesis
    by (simp only: dumps_sort_keys)
qed

theorem dumps_key_order_independent_witness:
  "dumps (PDict [(''foo'', PInt 1), (''bar'', PDict [(''y'', PInt 2), (''x'', PSet [PInt 3])])]) =
   dumps (PDict [(''bar'', PDict [(''x'', PSet [PInt 3]), (''y'', PInt 2)]), (''foo'', PInt 1)])"
  using dumps_key_order_independent [of
      "[(''foo'', PInt 1), (''bar'', PDict [(''y'', PInt 2), (''x'', PSet [PInt 3])])]"
      "[(''bar'', PDict [(''x'', PSet [PInt 3]), (''y'', PInt 2)]), (''foo'', PInt 1)]"]
  by (simp add: fun_eq_iff)


subsection \<open>The round trip\<close>

lemma split_on_nonempty: "split_on c s \<noteq> []"
  by (induction s) (auto split: list.splits)

lemma join_Cons_Cons: "join sep ((x # w) # ws) = x # join sep (w # ws)"
  by (cases ws) simp_all

lemma join_split_on: "join [c] (split_on c s) = s"
proof (induction s)
  case Nil
  show ?case by simp
next
  case (Cons x xs)
  obtain w ws where ws: "split_on c xs = w # ws"
    using split_on_nonempty [of c xs] by (cases "split_on c xs") auto
  show ?case
  proof (cases "x = c")
    case True
    with Cons ws show ?thesis by simp
  next
    case False
    with Cons ws show ?thesis by (simp add: join_Cons_Cons)
  qed
qed

lemma dict_set_fresh: "k \<notin> set (map fst d) \<Longrightarrow> dict_set d k v = d @ [(k, v)]"
  by (induction d) auto

lemma foldl_dict_set_distinct:
  "distinct (map fst (acc @ ps)) \<Longrightarrow> foldl (\<lambda>d (k, v). dict_set d k v) acc ps = acc @ ps"
proof (induction ps arbitrary: acc)
  case Nil
  show ?case by simp
next
  case (Cons p ps)
  obtain k v where p: "p = (k, v)" by (cases p)
  from Cons.prems p have fresh: "k \<notin> set (map fst acc)" by auto
  from Cons.prems p have "distinct (map fst ((acc @ [(k, v)]) @ ps))" by simp
  then have "foldl (\<lambda>d (k, v). dict_set d k v) (acc @ [(k, v)]) ps = (acc @ [(k, v)]) @ ps"
    by (rule Cons.IH)
  with fresh p show ?case by (simp add: dict_set_fresh)
qed

lemma dict_of_pairs_distinct: "distinct (map fst ps) \<Longrightarrow> dict_of_pairs ps = ps"
  using foldl_dict_set_distinct [of "[]" ps] by (simp add: dict_of_pairs_def)

lemma fmap_of_list_sort_key:
  assumes "distinct (map fst xs)"
  shows "fmap_of_list (sort_key fst xs) = fmap_of_list xs"
proof (rule fmap_ext)
  fix k
  have "map_of (sort_key fst xs) = map_of xs"
    using assms by (subst map_of_inject_set) (simp_all add: distinct_map distinct_sort)
  then show "fmlookup (fmap_of_list (sort_key fst xs)) k = fmlookup (fmap_of_list xs) k"
    by (simp add: fmlookup_of_list)
qed

lemma all_ok_map_JStr: "all_ok (map (json_decode env lc \<circ> JStr) ss) = Inr (map PStr ss)"
  by (induction ss) simp_all

lemma json_decode_path: "json_decode env lc (JArr (map JStr ss)) = Inr (PList (map PStr ss))"
  by (simp add: all_ok_map_JStr)

text \<open>Decoding the document of an envelope whose members have been decoded.\<close>

lemma json_decode_envelope:
  assumes "json_decode env lc ja = Inr (PList ws)"
    and "json_decode env lc jk = Inr (PDict kw)"
    and "json_decode env lc jm = Inr mv"
  shows "json_decode env lc
           (JObj [(''args'', ja), (''id'', JArr (map JStr (split_on CHR ''.'' m @ [n]))),
                  (''kwargs'', jk), (''lc'', JInt 2), (''method'', jm),
                  (''type'', JStr ''constructor'')]) =
         bind_err (env m) (\<lambda>module.
         bind_err (getattr_module module (PStr n)) (\<lambda>cls.
           if mv \<noteq> PNone then bind_err (getattr_class cls mv) (\<lambda>g. g ws kw)
           else call cls ws kw))"
proof -
  let ?envelope = "[(''args'', PList ws),
                 (''id'', PList (map PStr (split_on CHR ''.'' m @ [n]))),
                 (''kwargs'', PDict kw), (''lc'', PInt 2), (''method'', mv),
                 (''type'', PStr ''constructor'')]"
  have path: "json_decode env lc (JArr (map JStr (split_on CHR ''.'' m @ [n]))) =
      Inr (PList (map PStr (split_on CHR ''.'' m @ [n])))"
    by (rule json_decode_path)
  have dec: "json_decode env lc
           (JObj [(''args'', ja), (''id'', JArr (map JStr (split_on CHR ''.'' m @ [n]))),
                  (''kwargs'', jk), (''lc'', JInt 2), (''method'', jm),
                  (''type'', JStr ''constructor'')]) = reviver env lc ?envelope"
    using assms
    by (simp add: path bind_err_def dict_of_pairs_def del: json_decode.simps(6) map_append)
  have steps: "reviver env lc ?envelope =
      bind_err (env (join ''.'' (split_on CHR ''.'' m))) (\<lambda>module.
      bind_err (getattr_module module (PStr n)) (\<lambda>cls.
      bind_err (getitem ?envelope ''method'') (\<lambda>m.
        if m \<noteq> PNone
        then bind_err (getattr_class cls m) (\<lambda>method. apply_call method ?envelope)
        else apply_call (call cls) ?envelope)))"
    by (rule reviver_import_steps) (simp_all add: dict_get_def)
  have call: "apply_call f [(''args'', PList ws), (''id'', p), (''kwargs'', PDict kw),
      (''lc'', PInt 2), (''method'', mv), (''type'', PStr ''constructor'')] = f ws kw" for f p
    by (simp add: apply_call_def getitem_def dict_get_def bind_err_def)
  show ?thesis
    unfolding dec steps
    by (simp add: join_split_on getitem_def dict_get_def call bind_err_Inr cong: if_cong)
qed


lemma envelope_round_trip:
  assumes a: "json_encode a = Inr ja" "json_decode env lc ja = Inr (PList ws)"
    and k: "json_encode k = Inr jk" "json_decode env lc jk = Inr (PDict kw)"
    and r: "resolve env c = Some cls"
  shows "\<exists>j. json_encode (encode_constructor_args c m (Some a) (Some k)) = Inr j \<and>
             json_decode env lc j =
               (case m of
                  None \<Rightarrow> call cls ws kw
                | Some f \<Rightarrow>
                    (case attribute cls f of
                       None \<Rightarrow> Inl (AttributeError f)
                     | Some g \<Rightarrow> g ws kw))"
proof -
  let ?jm = "case m of None \<Rightarrow> JNull | Some s \<Rightarrow> JStr s"
  let ?mv = "case m of None \<Rightarrow> PNone | Some s \<Rightarrow> PStr s"
  let ?j = "JObj [(''args'', ja),
                  (''id'', JArr (map JStr (split_on CHR ''.'' (fst c) @ [snd c]))),
                  (''kwargs'', jk), (''lc'', JInt 2), (''method'', ?jm),
                  (''type'', JStr ''constructor'')]"
  from r obtain md where md: "env (fst c) = Inr md" "md (snd c) = Some cls"
    by (auto simp: resolve_def split: sum.splits)
  have enc: "json_encode (encode_constructor_args c m (Some a) (Some k)) = Inr ?j"
    by (simp add: json_encode_envelope a k bind_err_Inr)
  have jm: "json_decode env lc ?jm = Inr ?mv"
    by (cases m) simp_all
  have "json_decode env lc ?j =
      bind_err (env (fst c)) (\<lambda>module.
      bind_err (getattr_module module (PStr (snd c))) (\<lambda>cls.
        if ?mv \<noteq> PNone then bind_err (getattr_class cls ?mv) (\<lambda>g. g ws kw)
        else call cls ws kw))"
    by (rule json_decode_envelope [OF a(2) k(2) jm])
  also have "\<dots> = (case m of
                  None \<Rightarrow> call cls ws kw
                | Some f \<Rightarrow>
                    (case attribute cls f of
                       None \<Rightarrow> Inl (AttributeError f)
                     | Some g \<Rightarrow> g ws kw))"
    using md
    by (cases m)
       (simp_all add: bind_err_Inr getattr_module_def getattr_class_def bind_err_def
          split: option.splits)
  finally show ?thesis
    using enc by blast
qed

lemma empty_dict_round_trip:
  assumes "lc_passes lc"
  shows "json_encode (PDict []) = Inr (JObj [])"
    and "json_decode env lc (JObj []) = Inr (PDict [])"
proof -
  show "json_encode (PDict []) = Inr (JObj [])" by simp
  from assms have "lc [] = Inr (PDict [])"
    by (simp add: lc_passes_def dict_get_def)
  then show "json_decode env lc (JObj []) = Inr (PDict [])"
    by (simp add: bind_err_Inr dict_of_pairs_def reviver_def dict_get_def)
qed

lemma encode_constructor_args_defaults:
  "encode_constructor_args c m None k = encode_constructor_args c m (Some (PList [])) k"
  "encode_constructor_args c m a None = encode_constructor_args c m a (Some (PDict []))"
  by (simp_all add: encode_constructor_args_def)

lemma round_trips_list:
  assumes "\<And>x. x \<in> set xs \<Longrightarrow> round_trips env lc x"
  shows "\<exists>js ws. all_ok (map json_encode xs) = Inr js \<and>
                 all_ok (map (json_decode env lc) js) = Inr ws \<and>
                 map abs_val ws = map abs_val xs"
  using assms
proof (induction xs)
  case Nil
  show ?case by simp
next
  case (Cons x xs)
  have "round_trips env lc x"
    by (rule Cons.prems) simp
  then obtain j w where x: "json_encode x = Inr j" "json_decode env lc j = Inr w"
      "abs_val w = abs_val x"
    by (auto simp: round_trips_def)
  have "\<exists>js ws. all_ok (map json_encode xs) = Inr js \<and>
                 all_ok (map (json_decode env lc) js) = Inr ws \<and>
                 map abs_val ws = map abs_val xs"
  proof (rule Cons.IH)
    fix x'
    assume "x' \<in> set xs"
    then show "round_trips env lc x'"
      by (intro Cons.prems) simp
  qed
  then obtain js ws where xs: "all_ok (map json_encode xs) = Inr js"
      "all_ok (map (json_decode env lc) js) = Inr ws" "map abs_val ws = map abs_val xs"
    by blast
  have "all_ok (map json_encode (x # xs)) = Inr (j # js)"
    using x xs by simp
  moreover have "all_ok (map (json_decode env lc) (j # js)) = Inr (w # ws)"
    using x xs by simp
  moreover have "map abs_val (w # ws) = map abs_val (x # xs)"
    using x xs by simp
  ultimately show ?case by blast
qed

lemma round_trips_items:
  assumes "\<And>k v. (k, v) \<in> set kvs \<Longrightarrow> round_trips env lc v"
  shows "\<exists>kjs kws.
           all_ok (map (\<lambda>(k, v). map_sum id (Pair k) (json_encode v)) kvs) = Inr kjs \<and>
           all_ok (map (\<lambda>(k, j). map_sum id (Pair k) (json_decode env lc j)) kjs) = Inr kws \<and>
           map fst kws = map fst kvs \<and>
           map (map_prod id abs_val) kws = map (map_prod id abs_val) kvs"
  using assms
proof (induction kvs)
  case Nil
  show ?case by simp
next
  case (Cons p kvs)
  obtain k v where p: "p = (k, v)" by (cases p)
  have "round_trips env lc v"
    by (rule Cons.prems [of k]) (simp add: p)
  then obtain j w where v: "json_encode v = Inr j" "json_decode env lc j = Inr w"
      "abs_val w = abs_val v"
    by (auto simp: round_trips_def)
  have "\<exists>kjs kws.
           all_ok (map (\<lambda>(k, v). map_sum id (Pair k) (json_encode v)) kvs) = Inr kjs \<and>
           all_ok (map (\<lambda>(k, j). map_sum id (Pair k) (json_decode env lc j)) kjs) = Inr kws \<and>
           map fst kws = map fst kvs \<and>
           map (map_prod id abs_val) kws = map (map_prod id abs_val) kvs"
  proof (rule Cons.IH)
    fix k' v'
    assume "(k', v') \<in> set kvs"
    then show "round_trips env lc v'"
      by (intro Cons.prems [of k' v']) simp
  qed
  then obtain kjs kws where
      kvs: "all_ok (map (\<lambda>(k, v). map_sum id (Pair k) (json_encode v)) kvs) = Inr kjs"
      "all_ok (map (\<lambda>(k, j). map_sum id (Pair k) (json_decode env lc j)) kjs) = Inr kws"
      "map fst kws = map fst kvs"
      "map (map_prod id abs_val) kws = map (map_prod id abs_val) kvs"
    by blast
  have "all_ok (map (\<lambda>(k, v). map_sum id (Pair k) (json_encode v)) (p # kvs)) =
      Inr ((k, j) # kjs)"
    using v kvs p by simp
  moreover have "all_ok (map (\<lambda>(k, j). map_sum id (Pair k) (json_decode env lc j))
      ((k, j) # kjs)) = Inr ((k, w) # kws)"
    using v kvs by simp
  moreover have "map fst ((k, w) # kws) = map fst (p # kvs)"
    using kvs p by simp
  moreover have "map (map_prod id abs_val) ((k, w) # kws) =
      map (map_prod id abs_val) (p # kvs)"
    using v kvs p by simp
  ultimately show ?case by blast
qed

lemma round_trips_dict:
  assumes lc: "lc_passes lc"
    and distinct: "distinct (map fst kvs)"
    and no_lc: "''lc'' \<notin> set (map fst kvs)"
    and members: "\<And>k v. (k, v) \<in> set kvs \<Longrightarrow> round_trips env lc v"
  shows "\<exists>j kws. json_encode (PDict kvs) = Inr j \<and>
                  json_decode env lc j = Inr (PDict kws) \<and>
                  distinct (map fst kws) \<and> set (map fst kws) = set (map fst kvs) \<and>
                  fmap_of_list (map (map_prod id abs_val) kws) =
                  fmap_of_list (map (map_prod id abs_val) kvs)"
proof -
  have "\<exists>kjs kws.
           all_ok (map (\<lambda>(k, v). map_sum id (Pair k) (json_encode v)) (sort_key fst kvs)) =
             Inr kjs \<and>
           all_ok (map (\<lambda>(k, j). map_sum id (Pair k) (json_decode env lc j)) kjs) = Inr kws \<and>
           map fst kws = map fst (sort_key fst kvs) \<and>
           map (map_prod id abs_val) kws = map (map_prod id abs_val) (sort_key fst kvs)"
  proof (rule round_trips_items)
    fix k v
    assume "(k, v) \<in> set (sort_key fst kvs)"
    then show "round_trips env lc v"
      by (intro members [of k v]) simp
  qed
  then obtain kjs kws where
      enc: "all_ok (map (\<lambda>(k, v). map_sum id (Pair k) (json_encode v)) (sort_key fst kvs)) =
        Inr kjs"
      and dec: "all_ok (map (\<lambda>(k, j). map_sum id (Pair k) (json_decode env lc j)) kjs) =
        Inr kws"
      and keys: "map fst kws = map fst (sort_key fst kvs)"
      and vals: "map (map_prod id abs_val) kws = map (map_prod id abs_val) (sort_key fst kvs)"
    by blast
  have dk: "distinct (map fst kws)"
    using distinct keys by (simp add: distinct_map)
  have sk: "set (map fst kws) = set (map fst kvs)"
    using keys by simp
  have "dict_get kws ''lc'' = None"
    using no_lc sk by (simp add: dict_get_def map_of_eq_None_iff)
  then have rev: "reviver env lc kws = Inr (PDict kws)"
    using lc by (simp add: reviver_def lc_passes_def)
  have 1: "json_encode (PDict kvs) = Inr (JObj kjs)"
    using enc by simp
  have 2: "json_decode env lc (JObj kjs) = Inr (PDict kws)"
    using dec rev dk by (simp add: bind_err_Inr dict_of_pairs_distinct)
  have "map (map_prod id abs_val) kws = sort_key fst (map (map_prod id abs_val) kvs)"
    using vals by (simp add: sort_key_map_values)
  moreover have "distinct (map fst (map (map_prod id abs_val) kvs))"
    using distinct by (simp add: comp_def)
  ultimately have 3: "fmap_of_list (map (map_prod id abs_val) kws) =
      fmap_of_list (map (map_prod id abs_val) kvs)"
    by (simp add: fmap_of_list_sort_key)
  from 1 2 3 dk sk show ?thesis by blast
qed


lemma constructs_round_trips:
  assumes lc: "lc_passes lc"
    and c: "constructs env c m args result"
    and enc: "json_encode (PList args) = Inr ja"
    and dec: "json_decode env lc ja = Inr (PList args)"
    and v: "json_encode v = json_encode (encode_constructor_args c m (Some (PList args)) None)"
  shows "\<exists>j. json_encode v = Inr j \<and> json_decode env lc j = Inr result"
proof -
  from c obtain cls where cls: "resolve env c = Some cls"
    and result: "(case m of
                    None \<Rightarrow> call cls args []
                  | Some f \<Rightarrow>
                      (case attribute cls f of
                         None \<Rightarrow> Inl (AttributeError f)
                       | Some g \<Rightarrow> g args [])) = Inr result"
    by (auto simp: constructs_def split: option.splits)
  from envelope_round_trip [OF enc dec empty_dict_round_trip [OF lc] cls, of m]
  obtain j where
      "json_encode (encode_constructor_args c m (Some (PList args)) (Some (PDict []))) = Inr j"
      "json_decode env lc j =
         (case m of
            None \<Rightarrow> call cls args []
          | Some f \<Rightarrow>
              (case attribute cls f of
                 None \<Rightarrow> Inl (AttributeError f)
               | Some g \<Rightarrow> g args []))"
    by blast
  with v result show ?thesis
    by (simp add: encode_constructor_args_defaults)
qed

lemma members_round_trip:
  assumes lc: "lc_passes lc"
    and members: "\<And>x. x \<in> set xs \<Longrightarrow> round_trips env lc x"
    and cls: "resolve env c = Some cls"
    and v: "json_encode v =
              json_encode (encode_constructor_args c None (Some (PList [PList xs])) None)"
  shows "\<exists>j ws. json_encode v = Inr j \<and> json_decode env lc j = call cls [PList ws] [] \<and>
                 map abs_val ws = map abs_val xs"
proof -
  have "\<exists>js ws. all_ok (map json_encode xs) = Inr js \<and>
                 all_ok (map (json_decode env lc) js) = Inr ws \<and>
                 map abs_val ws = map abs_val xs"
    by (rule round_trips_list) (rule members)
  then obtain js ws where js: "all_ok (map json_encode xs) = Inr js"
      and ws: "all_ok (map (json_decode env lc) js) = Inr ws"
      and eq: "map abs_val ws = map abs_val xs"
    by blast
  have enc: "json_encode (PList [PList xs]) = Inr (JArr [JArr js])"
    using js by simp
  have dec: "json_decode env lc (JArr [JArr js]) = Inr (PList [PList ws])"
    using ws by simp
  from envelope_round_trip [OF enc dec empty_dict_round_trip [OF lc] cls, of None]
  obtain j where
      "json_encode (encode_constructor_args c None (Some (PList [PList xs])) (Some (PDict []))) =
         Inr j"
      "json_decode env lc j = call cls [PList ws] []"
    by auto
  with v eq show ?thesis
    by (auto simp: encode_constructor_args_defaults)
qed

lemma supported_round_trips:
  assumes lc: "lc_passes lc"
  shows "supported env v \<Longrightarrow> round_trips env lc v"
proof (induction v)
  case (PList xs)
  have "\<exists>js ws. all_ok (map json_encode xs) = Inr js \<and>
                 all_ok (map (json_decode env lc) js) = Inr ws \<and>
                 map abs_val ws = map abs_val xs"
  proof (rule round_trips_list)
    fix x assume "x \<in> set xs"
    with PList show "round_trips env lc x" by (simp add: list_all_iff)
  qed
  then obtain js ws where "all_ok (map json_encode xs) = Inr js"
      "all_ok (map (json_decode env lc) js) = Inr ws" "map abs_val ws = map abs_val xs"
    by blast
  then have "json_encode (PList xs) = Inr (JArr js)"
      "json_decode env lc (JArr js) = Inr (PList ws)"
      "abs_val (PList ws) = abs_val (PList xs)"
    by simp_all
  then show ?case
    unfolding round_trips_def by blast
next
  case (PDict kvs)
  have "\<exists>j kws. json_encode (PDict kvs) = Inr j \<and>
                  json_decode env lc j = Inr (PDict kws) \<and>
                  distinct (map fst kws) \<and> set (map fst kws) = set (map fst kvs) \<and>
                  fmap_of_list (map (map_prod id abs_val) kws) =
                  fmap_of_list (map (map_prod id abs_val) kvs)"
  proof (rule round_trips_dict [OF lc])
    from PDict.prems show "distinct (map fst kvs)" "''lc'' \<notin> set (map fst kvs)"
      by simp_all
  next
    fix k v assume kv: "(k, v) \<in> set kvs"
    with PDict.prems have "supported env v" by (auto simp: list_all_iff)
    with kv show "round_trips env lc v"
      by (intro PDict.IH [of "(k, v)" v]) simp_all
  qed
  then obtain j kws where "json_encode (PDict kvs) = Inr j"
      "json_decode env lc j = Inr (PDict kws)"
      "abs_val (PDict kws) = abs_val (PDict kvs)"
    by auto
  then show ?case
    unfolding round_trips_def by blast
next
  case (PUUID u)
  then have "constructs env (''uuid'', ''UUID'') None [PStr (uuid_hex u)] (PUUID u)"
    by simp
  from constructs_round_trips [OF lc this, of "JArr [JStr (uuid_hex u)]" "PUUID u"]
  show ?case
    by (auto simp: round_trips_def)
next
  case (PDatetime s)
  then have "constructs env (''datetime'', ''datetime'') (Some ''fromisoformat'') [PStr s]
      (PDatetime s)"
    by simp
  from constructs_round_trips [OF lc this, of "JArr [JStr s]" "PDatetime s"]
  show ?case
    by (auto simp: round_trips_def)
next
  case (PTimedelta d s us)
  then have "constructs env (''datetime'', ''timedelta'') None [PInt d, PInt s, PInt us]
      (PTimedelta d s us)"
    by simp
  from constructs_round_trips [OF lc this, of "JArr [JInt d, JInt s, JInt us]"
      "PTimedelta d s us"]
  show ?case
    by (auto simp: round_trips_def)
next
  case (PSet xs)
  from PSet.prems obtain cls where cls: "resolve env (''builtins'', ''set'') = Some cls"
    and build: "\<And>ws. map abs_val ws = map abs_val xs \<Longrightarrow>
        \<exists>ws'. call cls [PList ws] [] = Inr (PSet ws') \<and>
              fset_of_list (map abs_val ws') = fset_of_list (map abs_val ws)"
    by (auto simp: builds_set_def)
  have "\<exists>j ws. json_encode (PSet xs) = Inr j \<and>
                 json_decode env lc j = call cls [PList ws] [] \<and>
                 map abs_val ws = map abs_val xs"
  proof (rule members_round_trip [OF lc _ cls])
    fix x assume "x \<in> set xs"
    with PSet show "round_trips env lc x" by (simp add: list_all_iff)
  qed simp
  then obtain j ws where j: "json_encode (PSet xs) = Inr j"
      "json_decode env lc j = call cls [PList ws] []" "map abs_val ws = map abs_val xs"
    by auto
  from build [OF j(3)] obtain ws' where ws': "call cls [PList ws] [] = Inr (PSet ws')"
      "fset_of_list (map abs_val ws') = fset_of_list (map abs_val ws)"
    by blast
  have "json_decode env lc j = Inr (PSet ws')"
    using j(2) ws'(1) by (simp only:)
  moreover have "abs_val (PSet ws') = abs_val (PSet xs)"
    by (simp only: abs_val.simps ws'(2) j(3))
  ultimately show ?case
    unfolding round_trips_def using j(1) by blast
next
  case (PFrozenset xs)
  from PFrozenset.prems obtain cls
    where cls: "resolve env (''builtins'', ''frozenset'') = Some cls"
    and build: "\<And>ws. map abs_val ws = map abs_val xs \<Longrightarrow>
        \<exists>ws'. call cls [PList ws] [] = Inr (PFrozenset ws') \<and>
              fset_of_list (map abs_val ws') = fset_of_list (map abs_val ws)"
    by (auto simp: builds_frozenset_def)
  have "\<exists>j ws. json_encode (PFrozenset xs) = Inr j \<and>
                 json_decode env lc j = call cls [PList ws] [] \<and>
                 map abs_val ws = map abs_val xs"
  proof (rule members_round_trip [OF lc _ cls])
    fix x assume "x \<in> set xs"
    with PFrozenset show "round_trips env lc x" by (simp add: list_all_iff)
  qed simp
  then obtain j ws where j: "json_encode (PFrozenset xs) = Inr j"
      "json_decode env lc j = call cls [PList ws] []" "map abs_val ws = map abs_val xs"
    by auto
  from build [OF j(3)] obtain ws' where ws': "call cls [PList ws] [] = Inr (PFrozenset ws')"
      "fset_of_list (map abs_val ws') = fset_of_list (map abs_val ws)"
    by blast
  have "json_decode env lc j = Inr (PFrozenset ws')"
    using j(2) ws'(1) by (simp only:)
  moreover have "abs_val (PFrozenset ws') = abs_val (PFrozenset xs)"
    by (simp only: abs_val.simps ws'(2) j(3))
  ultimately show ?case
    unfolding round_trips_def using j(1) by blast
next
  case (PEnum c v)
  from PEnum.prems obtain cls where cls: "resolve env c = Some cls"
    and build: "\<And>w. abs_val w = abs_val v \<Longrightarrow>
        \<exists>v'. call cls [w] [] = Inr (PEnum c v') \<and> abs_val v' = abs_val v"
    by (auto simp: builds_enum_def)
  from PEnum have "round_trips env lc v" by simp
  then obtain jv w where v: "json_encode v = Inr jv" "json_decode env lc jv = Inr w"
      "abs_val w = abs_val v"
    by (auto simp: round_trips_def)
  have enc: "json_encode (PList [v]) = Inr (JArr [jv])"
    using v by simp
  have dec: "json_decode env lc (JArr [jv]) = Inr (PList [w])"
    using v by simp
  from envelope_round_trip [OF enc dec empty_dict_round_trip [OF lc] cls, of None]
  obtain j where
      "json_encode (encode_constructor_args c None (Some (PList [v])) (Some (PDict []))) = Inr j"
      "json_decode env lc j = call cls [w] []"
    by auto
  then have j: "json_encode (PEnum c v) = Inr j" "json_decode env lc j = call cls [w] []"
    by (simp_all add: encode_constructor_args_defaults)
  from build [OF v(3)] obtain v' where v': "call cls [w] [] = Inr (PEnum c v')"
      "abs_val v' = abs_val v"
    by blast
  have "json_decode env lc j = Inr (PEnum c v')"
    using j(2) v'(1) by (simp only:)
  moreover have "abs_val (PEnum c v') = abs_val (PEnum c v)"
    by (simp only: abs_val.simps v'(2))
  ultimately show ?case
    unfolding round_trips_def using j(1) by blast
next
  case (PModel c d)
  from PModel.prems obtain cls where cls: "resolve env c = Some cls"
    and build: "\<And>kw. distinct (map fst kw) \<Longrightarrow>
        fmap_of_list (map (map_prod id abs_val) kw) =
        fmap_of_list (map (map_prod id abs_val) d) \<Longrightarrow>
        \<exists>d'. call cls [] kw = Inr (PModel c d') \<and>
             fmap_of_list (map (map_prod id abs_val) d') =
             fmap_of_list (map (map_prod id abs_val) d)"
    by (auto simp: builds_model_def)
  have "\<exists>j kws. json_encode (PDict d) = Inr j \<and>
                  json_decode env lc j = Inr (PDict kws) \<and>
                  distinct (map fst kws) \<and> set (map fst kws) = set (map fst d) \<and>
                  fmap_of_list (map (map_prod id abs_val) kws) =
                  fmap_of_list (map (map_prod id abs_val) d)"
  proof (rule round_trips_dict [OF lc])
    from PModel.prems show "distinct (map fst d)" "''lc'' \<notin> set (map fst d)"
      by simp_all
  next
    fix k v assume kv: "(k, v) \<in> set d"
    with PModel.prems have "supported env v" by (auto simp: list_all_iff)
    with kv show "round_trips env lc v"
      by (intro PModel.IH [of "(k, v)" v]) simp_all
  qed
  then obtain jk kws where k: "json_encode (PDict d) = Inr jk"
      "json_decode env lc jk = Inr (PDict kws)"
      and kws: "distinct (map fst kws)"
      "fmap_of_list (map (map_prod id abs_val) kws) =
       fmap_of_list (map (map_prod id abs_val) d)"
    by blast
  have enc: "json_encode (PList []) = Inr (JArr [])" by simp
  have dec: "json_decode env lc (JArr []) = Inr (PList [])" by simp
  from envelope_round_trip [OF enc dec k cls, of None]
  obtain j where
      "json_encode (encode_constructor_args c None (Some (PList [])) (Some (PDict d))) = Inr j"
      "json_decode env lc j = call cls [] kws"
    by auto
  then have j: "json_encode (PModel c d) = Inr j"
      "json_decode env lc j = call cls [] kws"
    by (simp_all add: encode_constructor_args_defaults)
  from build [OF kws(1) kws(2)] obtain d' where d': "call cls [] kws = Inr (PModel c d')"
      "fmap_of_list (map (map_prod id abs_val) d') =
       fmap_of_list (map (map_prod id abs_val) d)"
    by blast
  have "json_decode env lc j = Inr (PModel c d')"
    using j(2) d'(1) by (simp only:)
  moreover have "abs_val (PModel c d') = abs_val (PModel c d)"
    by (simp only: abs_val.simps d'(2))
  ultimately show ?case
    unfolding round_trips_def using j(1) by blast
next
  case (PDataclass c fs)
  from PDataclass.prems obtain cls where cls: "resolve env c = Some cls"
    and build: "\<And>kw. distinct (map fst kw) \<Longrightarrow> set (map fst kw) = set (map fst fs) \<Longrightarrow>
        \<exists>fs'. call cls [] kw = Inr (PDataclass c fs') \<and>
              fmap_of_list (map (map_prod id abs_val) fs') =
              fmap_of_list (map (map_prod id abs_val) kw)"
    by (auto simp: builds_dataclass_def)
  have "\<exists>j kws. json_encode (PDict fs) = Inr j \<and>
                  json_decode env lc j = Inr (PDict kws) \<and>
                  distinct (map fst kws) \<and> set (map fst kws) = set (map fst fs) \<and>
                  fmap_of_list (map (map_prod id abs_val) kws) =
                  fmap_of_list (map (map_prod id abs_val) fs)"
  proof (rule round_trips_dict [OF lc])
    from PDataclass.prems show "distinct (map fst fs)" "''lc'' \<notin> set (map fst fs)"
      by simp_all
  next
    fix k v assume kv: "(k, v) \<in> set fs"
    with PDataclass.prems have "supported env v" by (auto simp: list_all_iff)
    with kv show "round_trips env lc v"
      by (intro PDataclass.IH [of "(k, v)" v]) simp_all
  qed
  then obtain jk kws where k: "json_encode (PDict fs) = Inr jk"
      "json_decode env lc jk = Inr (PDict kws)"
      and kws: "distinct (map fst kws)" "set (map fst kws) = set (map fst fs)"
      "fmap_of_list (map (map_prod id abs_val) kws) =
       fmap_of_list (map (map_prod id abs_val) fs)"
    by blast
  have enc: "json_encode (PList []) = Inr (JArr [])" by simp
  have dec: "json_decode env lc (JArr []) = Inr (PList [])" by simp
  from envelope_round_trip [OF enc dec k cls, of None]
  obtain j where
      "json_encode (encode_constructor_args c None (Some (PList [])) (Some (PDict fs))) = Inr j"
      "json_decode env lc j = call cls [] kws"
    by auto
  then have j: "json_encode (PDataclass c fs) = Inr j"
      "json_decode env lc j = call cls [] kws"
    by (simp_all add: encode_constructor_args_defaults)
  from build [OF kws(1) kws(2)] obtain fs' where fs': "call cls [] kws = Inr (PDataclass c fs')"
      "fmap_of_list (map (map_prod id abs_val) fs') =
       fmap_of_list (map (map_prod id abs_val) kws)"
    by blast
  have "json_decode env lc j = Inr (PDataclass c fs')"
    using j(2) fs'(1) by (simp only:)
  moreover have "abs_val (PDataclass c fs') = abs_val (PDataclass c fs)"
    by (simp only: abs_val.simps fs'(2) kws(3))
  ultimately show ?case
    unfolding round_trips_def using j(1) by blast
qed (simp_all add: round_trips_def)

lemma supported_convert_generators: "supported env v \<Longrightarrow> convert_generators v = v"
proof (induction v)
  case (PList xs)
  then have "map convert_generators xs = map (\<lambda>x. x) xs"
    by (intro map_cong) (auto simp: list_all_iff)
  then show ?case by simp
next
  case (PDict kvs)
  then have "map (\<lambda>(k, v). (k, convert_generators v)) kvs = map (\<lambda>kv. kv) kvs"
    by (intro map_cong) (auto simp: list_all_iff)
  then show ?case by simp
qed simp_all


text \<open>
  A dictionary that looks like an envelope: the reviver takes the plain dictionary
  \<open>{"lc": 2, "type": "constructor", "id": ["builtins", "set"], "method": None,
  "args": [[1]], "kwargs": {}}\<close> for an envelope and returns the set \<open>{1}\<close>.
  What \<open>LC_REVIVER\<close> does with the other dictionaries that have a key \<open>lc\<close> is
  langchain's business.
\<close>

lemma roundtrip_envelope_dict:
  "bind_err (dumps (PDict (envelope [''builtins'', ''set''] PNone (PList [PList [PInt 1]])
       (PDict [])))) (loads py_env lc_identity) = Inr (PSet [PInt 1])"
  by (simp add: dumps_def loads_def bind_err_def envelope_def dict_of_pairs_def reviver_def
      dict_get_def getitem_def join_strs_def getattr_module_def apply_call_def py_env_def
      set_new_def hashable_def py_dedup_def lc_identity_def)

text \<open>
  C2, as stated, at the tuple \<open>(1, 2)\<close>: the document is an array, and decoding
  returns the list \<open>[1, 2]\<close>, which is not the tuple. And at the dictionary above,
  a JSON-native value: decoding returns a set, which is not the dictionary.
\<close>

theorem roundtrip_tuple_counterexample:
  "bind_err (dumps (PTuple [PInt 1, PInt 2])) (loads py_env lc_identity) =
     Inr (PList [PInt 1, PInt 2]) \<and>
   abs_val (PList [PInt 1, PInt 2]) \<noteq> abs_val (PTuple [PInt 1, PInt 2]) \<and>
   bind_err (dumps (PDict (envelope [''builtins'', ''set''] PNone (PList [PList [PInt 1]])
       (PDict [])))) (loads py_env lc_identity) = Inr (PSet [PInt 1]) \<and>
   abs_val (PSet [PInt 1]) \<noteq>
     abs_val (PDict (envelope [''builtins'', ''set''] PNone (PList [PList [PInt 1]])
       (PDict [])))"
  by (simp add: roundtrip_envelope_dict) (simp add: dumps_def loads_def bind_err_def)

text \<open>
  C2, amended. For every value of the supported types in which no tuple occurs and no
  dictionary, dataclass or pydantic model has a key or field \<open>lc\<close> (JSON scalars with
  finite floats, lists, dictionaries, UUIDs, datetimes, timedeltas, sets and frozen
  sets, members of enumerations that derive from neither \<open>int\<close> nor \<open>str\<close>,
  dataclass instances and pydantic models, nested in one another), in a process that
  provides the classes (each can be imported and, called with the arguments the encoder
  extracted, returns the instance), with an \<open>LC_REVIVER\<close> that returns a dictionary
  without the key \<open>lc\<close> as it is: \<open>dumps\<close> succeeds, \<open>loads\<close> of the document
  succeeds, and the value it returns is structurally equal to the one encoded (the
  order of dictionary items and of set members aside).
\<close>

theorem loads_dumps_roundtrip:
  assumes "lc_passes lc" and "supported env v"
  shows "\<exists>j w. dumps v = Inr j \<and> loads env lc j = Inr w \<and> abs_val w = abs_val v"
  using supported_round_trips [OF assms] supported_convert_generators [OF assms(2)]
  by (simp add: round_trips_def dumps_def loads_def)


lemma lc_identity_passes: "lc_passes lc_identity"
  by (simp add: lc_passes_def lc_identity_def)

subsection \<open>The sample process provides the classes\<close>

lemma hashable_abs_val:
  "map abs_val ws = map abs_val xs \<Longrightarrow> list_all hashable ws = list_all hashable xs"
proof -
  assume eq: "map abs_val ws = map abs_val xs"
  have "list_all hashable ws = list_all ahashable (map abs_val ws)"
    by (simp add: list_all_iff hashable_def)
  also have "\<dots> = list_all ahashable (map abs_val xs)"
    by (simp only: eq)
  also have "\<dots> = list_all hashable xs"
    by (simp add: list_all_iff hashable_def)
  finally show ?thesis .
qed

text \<open>
  \<open>set()\<close> of the sample process keeps the members of a list no two of which are
  equal, and so builds every set from the list of its members.
\<close>

lemma py_dedup_unequal:
  assumes "distinct (map (\<lambda>x. py_key (abs_val x)) (kept @ ws))"
  shows "foldl (\<lambda>kept w. if list_ex (py_eq w) kept then kept else kept @ [w]) kept ws =
           kept @ ws"
  using assms
proof (induction ws arbitrary: kept)
  case Nil
  show ?case by simp
next
  case (Cons w ws)
  from Cons.prems have "\<not> list_ex (py_eq w) kept"
    by (auto simp: list_ex_iff py_eq_def)
  moreover from Cons.prems have "distinct (map (\<lambda>x. py_key (abs_val x)) ((kept @ [w]) @ ws))"
    by simp
  then have "foldl (\<lambda>kept w. if list_ex (py_eq w) kept then kept else kept @ [w])
      (kept @ [w]) ws = (kept @ [w]) @ ws"
    by (rule Cons.IH)
  ultimately show ?case by simp
qed

lemma set_new_unequal:
  assumes "list_all hashable xs" and "distinct (map (\<lambda>x. py_key (abs_val x)) xs)"
    and "map abs_val ws = map abs_val xs"
  shows "set_new [PList ws] [] = Inr (PSet ws)"
    and "frozenset_new [PList ws] [] = Inr (PFrozenset ws)"
proof -
  from assms(1) hashable_abs_val [OF assms(3)] have "list_all hashable ws"
    by (simp only:)
  moreover have "map (\<lambda>x. py_key (abs_val x)) ws = map (\<lambda>x. py_key (abs_val x)) xs"
    using arg_cong [OF assms(3), of "map py_key"] by (simp add: o_def)
  with assms(2) have "py_dedup ws = ws"
    using py_dedup_unequal [of "[]" ws] by (simp add: py_dedup_def)
  ultimately show "set_new [PList ws] [] = Inr (PSet ws)"
    and "frozenset_new [PList ws] [] = Inr (PFrozenset ws)"
    by (simp_all add: set_new_def frozenset_new_def)
qed

lemma builds_set_py_env:
  assumes "list_all hashable xs" and "distinct (map (\<lambda>x. py_key (abs_val x)) xs)"
  shows "builds_set py_env xs" and "builds_frozenset py_env xs"
proof -
  have "\<exists>ws'. set_new [PList ws] [] = Inr (PSet ws') \<and>
          fset_of_list (map abs_val ws') = fset_of_list (map abs_val ws)"
    if "map abs_val ws = map abs_val xs" for ws
    by (simp only: set_new_unequal(1) [OF assms that]) blast
  then show "builds_set py_env xs"
    by (simp add: builds_set_def resolve_def py_env_def)
  have "\<exists>ws'. frozenset_new [PList ws] [] = Inr (PFrozenset ws') \<and>
          fset_of_list (map abs_val ws') = fset_of_list (map abs_val ws)"
    if "map abs_val ws = map abs_val xs" for ws
    by (simp only: set_new_unequal(2) [OF assms that]) blast
  then show "builds_frozenset py_env xs"
    by (simp add: builds_frozenset_def resolve_def py_env_def)
qed

lemma set_new_equal_numbers:
  "set_new [PList [PInt 1, PFloat 1, PBool True]] [] = Inr (PSet [PInt 1])"
  by (simp add: set_new_def hashable_def py_dedup_def py_eq_def)

lemma dataclass_fields:
  assumes "distinct (map fst kw)" and "set (map fst kw) = set names"
  shows "fmap_of_list (map (map_prod id abs_val) (map (\<lambda>n. (n, the (map_of kw n))) names)) =
         fmap_of_list (map (map_prod id abs_val) kw)"
proof (rule fmap_ext)
  fix k
  have l: "map_of (map (map_prod id abs_val) (map (\<lambda>n. (n, the (map_of kw n))) names)) k =
      (if k \<in> set names then Some (abs_val (the (map_of kw k))) else None)"
    by (induction names) auto
  have r: "map_of (map (map_prod id abs_val) kw) k = map_option abs_val (map_of kw k)"
    by (induction kw) auto
  have "k \<in> set names \<longleftrightarrow> map_of kw k \<noteq> None"
    using assms(2) by (simp add: map_of_eq_None_iff)
  with l r
  have "map_of (map (map_prod id abs_val) (map (\<lambda>n. (n, the (map_of kw n))) names)) k =
      map_of (map (map_prod id abs_val) kw) k"
    by (cases "map_of kw k") auto
  then show "fmlookup (fmap_of_list (map (map_prod id abs_val)
        (map (\<lambda>n. (n, the (map_of kw n))) names))) k =
      fmlookup (fmap_of_list (map (map_prod id abs_val) kw)) k"
    by (simp only: fmlookup_of_list)
qed

lemma builds_dataclass_py_env:
  "builds_dataclass py_env (''app.models'', ''Point'') [''x'', ''y'']"
proof -
  have "\<exists>fs. dataclass_new (''app.models'', ''Point'') [''x'', ''y''] [] kw =
          Inr (PDataclass (''app.models'', ''Point'') fs) \<and>
        fmap_of_list (map (map_prod id abs_val) fs) =
        fmap_of_list (map (map_prod id abs_val) kw)"
    if "distinct (map fst kw)" and "set (map fst kw) = set [''x'', ''y'']" for kw
    using that dataclass_fields [OF that] by (simp add: dataclass_new_def)
  then show ?thesis
    by (simp add: builds_dataclass_def resolve_def py_env_def)
qed

lemma fmap_of_list_keys:
  fixes xs ys :: "('k \<times> 'v) list" and f :: "'v \<Rightarrow> 'w"
  assumes "fmap_of_list (map (map_prod id f) xs) = fmap_of_list (map (map_prod id f) ys)"
  shows "set (map fst xs) = set (map fst ys)"
proof -
  have keys: "k \<in> set (map fst zs) \<longleftrightarrow>
      fmlookup (fmap_of_list (map (map_prod id f) zs)) k \<noteq> None"
    for k :: 'k and zs :: "('k \<times> 'v) list"
    by (induction zs) (auto simp: fmlookup_of_list)
  show ?thesis
    by (rule set_eqI) (simp only: keys assms)
qed

lemma builds_model_py_env:
  assumes "set (map fst d) = {''name'', ''tags''}"
  shows "builds_model py_env (''app.models'', ''User'') d"
proof -
  have "\<exists>d'. model_new (''app.models'', ''User'') [''name'', ''tags''] [] kw =
          Inr (PModel (''app.models'', ''User'') d') \<and>
        fmap_of_list (map (map_prod id abs_val) d') =
        fmap_of_list (map (map_prod id abs_val) d)"
    if kw: "distinct (map fst kw)"
      "fmap_of_list (map (map_prod id abs_val) kw) = fmap_of_list (map (map_prod id abs_val) d)"
    for kw
  proof -
    from fmap_of_list_keys [OF kw(2)] assms
    have keys: "set (map fst kw) = set [''name'', ''tags'']"
      by simp
    from kw(1) keys show ?thesis
      using dataclass_fields [OF kw(1) keys] by (simp add: model_new_def kw(2))
  qed
  then show ?thesis
    by (simp add: builds_model_def resolve_def py_env_def)
qed

lemma builds_enum_py_env:
  "builds_enum py_env (''app.models'', ''Color'') (PStr ''green'')"
  by (simp add: builds_enum_def resolve_def py_env_def enum_new_def)

lemma supported_sample_state: "supported py_env sample_state"
proof -
  have uuid: "constructs py_env (''uuid'', ''UUID'') None
      [PStr (uuid_hex 0x12345678123456781234567812345678)]
      (PUUID 0x12345678123456781234567812345678)"
    by (simp add: constructs_def resolve_def py_env_def uuid_new_def uuid_hex_def
        hex_pad_numeral hex_digit_def hex_value_def)
  have datetime: "constructs py_env (''datetime'', ''datetime'') (Some ''fromisoformat'')
      [PStr ''2024-01-02T03:04:05+00:00''] (PDatetime ''2024-01-02T03:04:05+00:00'')"
    by (simp add: constructs_def resolve_def py_env_def fromisoformat_def)
  have timedelta: "constructs py_env (''datetime'', ''timedelta'') None
      [PInt 1, PInt 2, PInt 3] (PTimedelta 1 2 3)"
    by (simp add: constructs_def resolve_def py_env_def timedelta_new_def)
  show ?thesis
    unfolding sample_state_def
    by (simp add: uuid datetime timedelta builds_set_py_env builds_model_py_env
        builds_enum_py_env builds_dataclass_py_env hashable_def)
qed

theorem loads_dumps_roundtrip_witness:
  "\<exists>j w. dumps sample_state = Inr j \<and> loads py_env lc_identity j = Inr w \<and>
         abs_val w = abs_val sample_state"
  using loads_dumps_roundtrip [OF lc_identity_passes supported_sample_state] .


subsection \<open>The classes of the standard library return the instance\<close>

text \<open>
  For a UUID, a datetime and a timedelta the process has to provide a class that
  returns the instance for the arguments the encoder extracted. The classes of the
  sample process, written after the standard library, do so for every instance.
\<close>

lemma hex_value_hex_digit:
  assumes "d < 16"
  shows "hex_value (hex_digit d) = Some d"
proof -
  from assms have "d \<in> {0, 1, 2, 3, 4, 5, 6, 7, 8, 9, 10, 11, 12, 13, 14, 15}"
    by simp arith
  then show ?thesis
    by (auto simp: hex_digit_def hex_value_def)
qed

lemma from_hex_append:
  "from_hex (xs @ ys) acc = (case from_hex xs acc of None \<Rightarrow> None | Some a \<Rightarrow> from_hex ys a)"
  by (induction xs arbitrary: acc) (auto split: option.splits)

lemma from_hex_hex_pad: "from_hex (hex_pad k n) acc = Some (acc * 16 ^ k + n mod 16 ^ k)"
proof (induction k arbitrary: n)
  case 0
  show ?case by simp
next
  case (Suc k)
  have digit: "hex_value (hex_digit (n mod 16)) = Some (n mod 16)"
    by (rule hex_value_hex_digit) simp
  have "n mod (16 * 16 ^ k) = 16 * (n div 16 mod 16 ^ k) + n mod 16"
    by (rule mod_mult2_eq)
  then have "16 * (acc * 16 ^ k + n div 16 mod 16 ^ k) + n mod 16 =
      acc * 16 ^ Suc k + n mod 16 ^ Suc k"
    by (simp add: algebra_simps)
  then show ?case
    by (simp add: from_hex_append Suc.IH digit)
qed

lemma uuid_new_hex:
  assumes "u < 2 ^ 128"
  shows "uuid_new [PStr (uuid_hex u)] [] = Inr (PUUID u)"
proof -
  have "(2 :: nat) ^ 128 = 16 ^ 32"
    by simp
  with assms have "u mod 16 ^ 32 = u"
    by simp
  then have "from_hex (uuid_hex u) 0 = Some u"
    by (simp add: uuid_hex_def from_hex_hex_pad)
  then show ?thesis
    by (simp add: uuid_new_def uuid_hex_def length_hex_pad)
qed

lemma timedelta_new_normalized:
  assumes "0 \<le> s" "s < 86400" "0 \<le> us" "us < 1000000"
  shows "timedelta_new [PInt d, PInt s, PInt us] [] = Inr (PTimedelta d s us)"
  using assms by (simp add: timedelta_new_def)

lemma supported_py_env_leaves:
  "u < 2 ^ 128 \<Longrightarrow> supported py_env (PUUID u)"
  "supported py_env (PDatetime isoformat)"
  "0 \<le> s \<Longrightarrow> s < 86400 \<Longrightarrow> 0 \<le> us \<Longrightarrow> us < 1000000 \<Longrightarrow> supported py_env (PTimedelta d s us)"
  by (simp_all add: constructs_def resolve_def py_env_def uuid_new_hex fromisoformat_def
      timedelta_new_normalized)

section \<open>Properties of the checkpoint store\<close>

lemma map_of_upsert: "map_of (upsert k v rows) k' = (if k' = k then Some v else map_of rows k')"
  by (induction rows) auto

lemma upsert_same: "map_of rows k = Some v \<Longrightarrow> upsert k v rows = rows"
  by (induction rows) auto

lemma keys_upsert: "fst ` set (upsert k v rows) = insert k (fst ` set rows)"
proof (induction rows)
  case Nil
  show ?case by simp
next
  case (Cons r rows)
  obtain k' v' where r: "r = (k', v')" by (cases r)
  show ?case
  proof (cases "k' = k")
    case True
    then show ?thesis by (simp add: r)
  next
    case False
    with Cons show ?thesis by (simp add: r insert_commute)
  qed
qed

lemma distinct_upsert: "distinct (map fst rows) \<Longrightarrow> distinct (map fst (upsert k v rows))"
  by (induction rows) (auto simp: keys_upsert)

lemma fold_upsert_untouched:
  "k \<notin> key ` fst ` set items \<Longrightarrow>
   map_of (fold (\<lambda>(idx, w). upsert (key idx) w) items rows) k = map_of rows k"
  by (induction items arbitrary: rows) (auto simp: map_of_upsert)

text \<open>A batch that the store already holds changes nothing.\<close>

lemma fold_upsert_present:
  assumes "\<And>idx w. (idx, w) \<in> set items \<Longrightarrow> map_of rows (key idx) = Some w"
  shows "fold (\<lambda>(idx, w). upsert (key idx) w) items rows = rows"
  using assms
proof (induction items)
  case Nil
  show ?case by simp
next
  case (Cons item items)
  obtain idx w where item: "item = (idx, w)" by (cases item)
  have "map_of rows (key idx) = Some w"
    by (rule Cons.prems) (simp add: item)
  then have "upsert (key idx) w rows = rows"
    by (rule upsert_same)
  moreover have "fold (\<lambda>(idx, w). upsert (key idx) w) items rows = rows"
  proof (rule Cons.IH)
    fix idx' w'
    assume "(idx', w') \<in> set items"
    then show "map_of rows (key idx') = Some w'"
      by (intro Cons.prems) simp
  qed
  ultimately show ?case
    by (simp add: item)
qed

text \<open>After a batch, the store holds each of its writes under its key.\<close>

lemma fold_upsert_lookup:
  assumes "inj key" and "distinct (map fst items)" and "(idx, w) \<in> set items"
  shows "map_of (fold (\<lambda>(idx, w). upsert (key idx) w) items rows) (key idx) = Some w"
  using assms(2,3)
proof (induction items arbitrary: rows)
  case Nil
  then show ?case by simp
next
  case (Cons item items)
  obtain idx' w' where item: "item = (idx', w')" by (cases item)
  show ?case
  proof (cases "(idx, w) \<in> set items")
    case True
    with Cons show ?thesis by (simp add: item)
  next
    case False
    with Cons.prems item have same: "idx' = idx" "w' = w" by auto
    from Cons.prems item same have "idx \<notin> fst ` set items" by auto
    with assms(1) have "key idx \<notin> key ` fst ` set items"
      by (auto dest: injD)
    then have "map_of (fold (\<lambda>(idx, w). upsert (key idx) w) items (upsert (key idx) w rows))
        (key idx) = map_of (upsert (key idx) w rows) (key idx)"
      by (rule fold_upsert_untouched)
    then show ?thesis
      by (simp add: item same map_of_upsert)
  qed
qed

lemma distinct_fold_upsert:
  "distinct (map fst rows) \<Longrightarrow>
   distinct (map fst (fold (\<lambda>(idx, w). upsert (key idx) w) items rows))"
  by (induction items arbitrary: rows) (auto simp: distinct_upsert)

text \<open>
  C5. Calling \<open>putWrites\<close> a second time with the same config, task id and writes
  leaves the store as the first call left it; and a store whose pending writes have
  distinct keys keeps them distinct, so a re-submission adds no row.
\<close>

theorem put_writes_idempotent:
  "put_writes (put_writes s c writes task_id) c writes task_id = put_writes s c writes task_id \<and>
   (distinct (map fst (pending_writes s)) \<longrightarrow>
      distinct (map fst (pending_writes (put_writes s c writes task_id))))"
proof -
  let ?key = "\<lambda>idx. (address c, task_id, idx)"
  let ?rows = "fold (\<lambda>(idx, w). upsert (?key idx) w) (enumerate 0 writes) (pending_writes s)"
  have inj: "inj ?key"
    by (simp add: inj_on_def)
  have "fold (\<lambda>(idx, w). upsert (?key idx) w) (enumerate 0 writes) ?rows = ?rows"
  proof (rule fold_upsert_present)
    fix idx w
    assume "(idx, w) \<in> set (enumerate 0 writes)"
    with inj show "map_of ?rows (?key idx) = Some w"
      by (intro fold_upsert_lookup) simp_all
  qed
  then show ?thesis
    by (simp add: put_writes_def distinct_fold_upsert)
qed

theorem put_writes_idempotent_witness:
  "put_writes (put_writes
      \<lparr> saved_checkpoints = [], pending_writes = [] \<rparr>
      \<lparr> thread_id = ''thread-2'', checkpoint_ns = Some '''', checkpoint_id = Some ''2'' \<rparr>
      [(''node1'', PInt 1), (''node2'', PStr ''a'')] ''task1'')
      \<lparr> thread_id = ''thread-2'', checkpoint_ns = Some '''', checkpoint_id = Some ''2'' \<rparr>
      [(''node1'', PInt 1), (''node2'', PStr ''a'')] ''task1'' =
   \<lparr> saved_checkpoints = [],
     pending_writes =
       [(((''thread-2'', Some '''', Some ''2''), ''task1'', 0), (''node1'', PInt 1)),
        (((''thread-2'', Some '''', Some ''2''), ''task1'', 1), (''node2'', PStr ''a''))] \<rparr>"
  using put_writes_idempotent [of
      "\<lparr> saved_checkpoints = [], pending_writes = [] \<rparr>"
      "\<lparr> thread_id = ''thread-2'', checkpoint_ns = Some '''', checkpoint_id = Some ''2'' \<rparr>"
      "[(''node1'', PInt 1), (''node2'', PStr ''a'')]" "''task1''"]
  by (simp add: put_writes_def address_def)

text \<open>
  C6. Without a config, a bound or a limit, \<open>list\<close> returns exactly the stored
  checkpoints whose metadata holds every pair of the filter, each once. So with the
  filter \<open>{"source": "input"}\<close> a checkpoint is returned if and only if it is stored
  and its metadata binds \<open>source\<close> to \<open>"input"\<close>, and a checkpoint without the key is
  left out; with the empty filter all stored checkpoints are returned.
\<close>

theorem list_filter_law:
  "mset (list_checkpoints s None flt None None) =
     filter_mset (\<lambda>ck. metadata_matches (sc_metadata ck) flt) (mset (saved_checkpoints s)) \<and>
   (ck \<in> set (list_checkpoints s None [(''source'', v)] None None) \<longleftrightarrow>
      ck \<in> set (saved_checkpoints s) \<and> map_of (sc_metadata ck) ''source'' = Some v) \<and>
   (map_of (sc_metadata ck) k = None \<longrightarrow>
      ck \<notin> set (list_checkpoints s None [(k, v)] None None)) \<and>
   mset (list_checkpoints s None [] None None) = mset (saved_checkpoints s)"
  by (simp add: list_checkpoints_def in_scope_def metadata_matches_def)

theorem list_filter_law_witness:
  "list_checkpoints test_store None [(''source'', PStr ''input'')] None None =
     [saved_checkpoints test_store ! 0] \<and>
   saved_checkpoints test_store ! 2 \<notin>
     set (list_checkpoints test_store None [(''source'', PStr ''input'')] None None) \<and>
   mset (list_checkpoints test_store None [] None None) = mset (saved_checkpoints test_store)"
proof -
  have "list_checkpoints test_store None [(''source'', PStr ''input'')] None None =
      [saved_checkpoints test_store ! 0]"
    by (simp add: list_checkpoints_def in_scope_def metadata_matches_def test_store_def)
  moreover have "map_of (sc_metadata (saved_checkpoints test_store ! 2)) ''source'' = None"
    by (simp add: test_store_def)
  ultimately show ?thesis
    using list_filter_law [of test_store "[]" "saved_checkpoints test_store ! 2"
        "PStr ''input''" "''source''"]
    by (simp add: metadata_matches_def)
qed

text \<open>
  The model gives what \<open>test_asearch\<close> asserts of the saver: one result for
  \<open>{"source": "input"}\<close>, one for \<open>{"step": 1, "writes": {"foo": "bar"}}\<close>, three
  for the empty filter, none for \<open>{"source": "update", "step": 1}\<close>, and the two
  checkpoints of thread-2, in both namespaces, for the config that names only the
  thread.
\<close>

lemma list_checkpoints_test_asearch:
  "length (list_checkpoints test_store None [(''source'', PStr ''input'')] None None) = 1"
  "map sc_metadata (list_checkpoints test_store None
      [(''step'', PInt 1), (''writes'', PDict [(''foo'', PStr ''bar'')])] None None) =
   [sc_metadata (saved_checkpoints test_store ! 1)]"
  "length (list_checkpoints test_store None [] None None) = 3"
  "list_checkpoints test_store None [(''source'', PStr ''update''), (''step'', PInt 1)]
      None None = []"
  "set (map sc_checkpoint_ns (list_checkpoints test_store
      (Some \<lparr> thread_id = ''thread-2'', checkpoint_ns = None, checkpoint_id = None \<rparr>)
      [] None None)) = {'''', ''inner''}"
  by (auto simp: list_checkpoints_def in_scope_def metadata_matches_def test_store_def)


section \<open>Properties of the superstep engine\<close>

subsection \<open>A run ends\<close>

lemma superstep_idle: "status s \<noteq> PLANNING \<Longrightarrow> superstep g s = s"
  by (simp add: superstep_def)

lemma run_steps_idle: "status s \<noteq> PLANNING \<Longrightarrow> run_steps k g s = s"
  by (induction k) (simp_all add: superstep_idle)

lemma run_steps_add: "run_steps (j + k) g s = run_steps j g (run_steps k g s)"
  by (induction k arbitrary: s) simp_all

lemma step_execute: "step (execute s tasks) = step s"
  unfolding execute_def
  by (induction tasks arbitrary: s)
     (simp_all add: run_task_def invoke_def Let_def split: option.splits)

lemma superstep_planning:
  assumes "status (superstep g s) = PLANNING"
  shows "step (superstep g s) = step s + 1 \<and> step s < int (recursion_limit g)"
proof -
  from assms have planning: "status s = PLANNING"
    by (rule contrapos_pp) (simp add: superstep_def)
  with assms have tasks: "plan g s \<noteq> []" and limit: "step s < int (recursion_limit g)"
    by (auto simp: superstep_def Let_def split: if_splits)
  with planning have "superstep g s = commit g s (execute s (plan g s)) (plan g s)"
    by (simp add: superstep_def Let_def)
  with assms have "step (superstep g s) = step s + 1"
    by (auto simp: commit_def Let_def step_execute split: if_splits)
  with limit show ?thesis by simp
qed

lemma run_steps_planning:
  assumes "step s \<le> int (recursion_limit g)"
    and "status (run_steps k g s) = PLANNING"
  shows "step (run_steps k g s) = step s + int k \<and> step s + int k \<le> int (recursion_limit g)"
  using assms
proof (induction k arbitrary: s)
  case 0
  then show ?case by simp
next
  case (Suc k)
  have planning: "status (superstep g s) = PLANNING"
  proof (rule ccontr)
    assume "status (superstep g s) \<noteq> PLANNING"
    then have "run_steps k g (superstep g s) = superstep g s"
      by (rule run_steps_idle)
    with Suc.prems(2) \<open>status (superstep g s) \<noteq> PLANNING\<close> show False
      by simp
  qed
  then have next_step: "step (superstep g s) = step s + 1" "step s < int (recursion_limit g)"
    using superstep_planning [of g s] by simp_all
  then have "step (superstep g s) \<le> int (recursion_limit g)"
    by simp
  moreover from Suc.prems(2) have "status (run_steps k g (superstep g s)) = PLANNING"
    by simp
  ultimately have "step (run_steps k g (superstep g s)) = step (superstep g s) + int k \<and>
      step (superstep g s) + int k \<le> int (recursion_limit g)"
    by (rule Suc.IH)
  with next_step show ?case by simp
qed

text \<open>
  Every run reaches DONE or FAILED: the turns \<open>run\<close> takes are enough, whatever the
  graph.
\<close>

lemma run_ends: "status (run g input) \<noteq> PLANNING"
proof
  assume "status (run g input) = PLANNING"
  moreover have "step (initial input) \<le> int (recursion_limit g)"
    by (simp add: initial_def Let_def)
  ultimately have "step (initial input) + int (Suc (recursion_limit g)) \<le> int (recursion_limit g)"
    unfolding run_def using run_steps_planning by blast
  then show False
    by (simp add: initial_def Let_def)
qed

subsection \<open>A constant cache key\<close>

lemma count_of_bump: "count_of (bump k m) k' = (if k' = k then Suc (count_of m k) else count_of m k')"
  by (simp add: count_of_def bump_def map_of_upsert)

lemma cache_inv_initial: "cache_inv n (initial input)"
  by (simp add: cache_inv_def initial_def Let_def runs_of_def count_of_def)

text \<open>A task of another node leaves what is recorded of \<open>n\<close> as it is.\<close>

lemma run_task_other:
  assumes "node_name m \<noteq> n"
  shows "map_of (cache (run_task s (m, input))) (n, k) = map_of (cache s) (n, k)"
    and "runs_of n (run_task s (m, input)) = runs_of n s"
    and "count_of (calls (run_task s (m, input))) n = count_of (calls s) n"
    and "count_of (cache_hits (run_task s (m, input))) n = count_of (cache_hits s) n"
    and "checkpoints (run_task s (m, input)) = checkpoints s"
  using assms
  by (auto simp: run_task_def invoke_def Let_def runs_of_def map_of_upsert count_of_bump
      split: option.splits)

lemma run_task_cache_inv:
  assumes inv: "cache_inv n s"
    and key: "node_name m = n \<Longrightarrow> node_cache_key m = Some (\<lambda>input. '''')"
  shows "cache_inv n (run_task s (m, input))"
proof (cases "node_name m = n")
  case False
  with inv show ?thesis
    by (simp add: cache_inv_def run_task_other cong: option.case_cong)
next
  case True
  note key = key [OF True]
  show ?thesis
  proof (cases "map_of (cache s) (n, '''')")
    case None
    with key True have after: "run_task s (m, input) =
        s\<lparr> calls := bump n (calls s),
           task_log := \<lparr> tr_step = step s, tr_node = n, tr_cache_hit = False,
                         tr_writes = node_body m input \<rparr> # task_log s,
           cache := upsert (n, '''') (node_body m input) (cache s) \<rparr>"
      by (simp add: run_task_def invoke_def Let_def)
    from inv None have before: "runs_of n s = []" "count_of (calls s) n = 0"
        "count_of (cache_hits s) n = 0"
      and cks: "list_all (\<lambda>c. map_of (ck_writes c) n = None) (checkpoints s)"
      by (auto simp: cache_inv_def list_all_iff split: option.splits)
    from cks have "list_all (\<lambda>c. case map_of (ck_writes c) n of
                      None \<Rightarrow> True
                    | Some w \<Rightarrow> Some (node_body m input) = Some w) (checkpoints s)"
      by (simp add: list_all_iff)
    with before show ?thesis
      unfolding after cache_inv_def
      by (simp add: map_of_upsert runs_of_def count_of_bump cong: option.case_cong)
  next
    case (Some w)
    with key True have after: "run_task s (m, input) =
        s\<lparr> cache_hits := bump n (cache_hits s),
           task_log := \<lparr> tr_step = step s, tr_node = n, tr_cache_hit = True,
                         tr_writes = w \<rparr> # task_log s \<rparr>"
      by (simp add: run_task_def Let_def)
    from inv Some have before: "runs_of n s \<noteq> []" "count_of (calls s) n = 1"
        "Suc (count_of (cache_hits s) n) = length (runs_of n s)"
        "list_all (\<lambda>r. tr_writes r = w) (runs_of n s)"
        "list_all tr_cache_hit (butlast (runs_of n s))"
        "\<not> tr_cache_hit (last (runs_of n s))"
      and cks: "list_all (\<lambda>c. case map_of (ck_writes c) n of
                      None \<Rightarrow> True
                    | Some w' \<Rightarrow> Some w = Some w') (checkpoints s)"
      by (simp_all add: cache_inv_def cong: option.case_cong)
    from before(1) have runs: "filter (\<lambda>r. tr_node r = n) (task_log s) \<noteq> []"
      by (simp add: runs_of_def)
    from before cks Some show ?thesis
      unfolding after cache_inv_def
      using runs by (simp add: runs_of_def count_of_bump cong: option.case_cong)
  qed
qed

lemma execute_cache_inv:
  assumes "cache_inv n s"
    and "\<And>m input. (m, input) \<in> set tasks \<Longrightarrow> node_name m = n \<Longrightarrow>
           node_cache_key m = Some (\<lambda>input. '''')"
  shows "cache_inv n (execute s tasks)"
  using assms unfolding execute_def
proof (induction tasks arbitrary: s)
  case Nil
  then show ?case by simp
next
  case (Cons t tasks)
  obtain m input where t: "t = (m, input)" by (cases t)
  have "cache_inv n (run_task s (m, input))"
  proof (rule run_task_cache_inv [OF Cons.prems(1)])
    assume "node_name m = n"
    then show "node_cache_key m = Some (\<lambda>input. '''')"
      by (intro Cons.prems(2) [of m input]) (simp_all add: t)
  qed
  then have "cache_inv n (foldl run_task (run_task s (m, input)) tasks)"
  proof (rule Cons.IH)
    fix m' input'
    assume "(m', input') \<in> set tasks" and "node_name m' = n"
    then show "node_cache_key m' = Some (\<lambda>input. '''')"
      by (intro Cons.prems(2) [of m' input']) simp_all
  qed
  then show ?case by (simp add: t)
qed

text \<open>
  The commit adds a checkpoint whose writes are those of the runs of the step, which
  are in the task log.
\<close>

lemma commit_cache_inv:
  assumes "cache_inv n s"
  shows "cache_inv n (commit g s0 s tasks)"
proof (cases "distinct (map fst (concat (map tr_writes (step_runs s (length tasks)))))")
  case False
  with assms show ?thesis
    by (simp add: commit_def Let_def cache_inv_def runs_of_def cong: option.case_cong)
next
  case True
  let ?runs = "step_runs s (length tasks)"
  have new: "map_of (cache s) (n, '''') = Some w"
    if "map_of (map (\<lambda>r. (tr_node r, tr_writes r)) ?runs) n = Some w" for w
  proof -
    from that have "(n, w) \<in> set (map (\<lambda>r. (tr_node r, tr_writes r)) ?runs)"
      by (rule map_of_SomeD)
    then obtain r where r: "r \<in> set ?runs" "tr_node r = n" "tr_writes r = w"
      by auto
    then have "r \<in> set (task_log s)"
      by (auto simp: step_runs_def dest: in_set_takeD)
    with r have member: "r \<in> set (runs_of n s)"
      by (simp add: runs_of_def)
    then have "runs_of n s \<noteq> []" by auto
    with assms obtain w' where w': "map_of (cache s) (n, '''') = Some w'"
        "list_all (\<lambda>r. tr_writes r = w') (runs_of n s)"
      by (auto simp: cache_inv_def split: option.splits)
    with member r show ?thesis
      by (auto simp: list_all_iff)
  qed
  then have "case map_of (map (\<lambda>r. (tr_node r, tr_writes r)) ?runs) n of
               None \<Rightarrow> True
             | Some w \<Rightarrow> map_of (cache s) (n, '''') = Some w"
    by (simp split: option.splits)
  with assms True show ?thesis
    by (simp add: commit_def Let_def cache_inv_def runs_of_def cong: option.case_cong)
qed

lemma plan_nodes: "(m, input) \<in> set (plan g s) \<Longrightarrow> m \<in> set (graph_nodes g)"
  by (auto simp: plan_def List.map_filter_def split: if_splits)

lemma superstep_cache_inv:
  assumes names: "distinct (map node_name (graph_nodes g))"
    and node: "n \<in> set (graph_nodes g)"
    and key: "node_cache_key n = Some (\<lambda>input. '''')"
    and inv: "cache_inv (node_name n) s"
  shows "cache_inv (node_name n) (superstep g s)"
proof -
  have "cache_inv (node_name n) (execute s (plan g s))"
  proof (rule execute_cache_inv [OF inv])
    fix m input
    assume "(m, input) \<in> set (plan g s)" and same: "node_name m = node_name n"
    then have "m \<in> set (graph_nodes g)"
      by (auto dest: plan_nodes)
    with names node same have "m = n"
      by (auto simp: distinct_map dest: inj_onD)
    with key show "node_cache_key m = Some (\<lambda>input. '''')"
      by simp
  qed
  then have "cache_inv (node_name n) (commit g s (execute s (plan g s)) (plan g s))"
    by (rule commit_cache_inv)
  moreover from inv have "cache_inv (node_name n) (s\<lparr> status := st \<rparr>)" for st
    by (simp add: cache_inv_def runs_of_def cong: option.case_cong)
  ultimately show ?thesis
    using inv by (simp add: superstep_def Let_def)
qed

lemma run_steps_cache_inv:
  assumes "distinct (map node_name (graph_nodes g))"
    and "n \<in> set (graph_nodes g)"
    and "node_cache_key n = Some (\<lambda>input. '''')"
    and "cache_inv (node_name n) s"
  shows "cache_inv (node_name n) (run_steps k g s)"
  using assms(4)
proof (induction k arbitrary: s)
  case 0
  then show ?case by simp
next
  case (Suc k)
  from assms(1-3) Suc.prems have "cache_inv (node_name n) (superstep g s)"
    by (rule superstep_cache_inv)
  then show ?case
    by (simp add: Suc.IH)
qed

text \<open>
  C3. A node whose cache key is the constant empty string, in a graph whose node names
  are distinct, run from the start of a run (the cache is empty) for any number of
  turns. Once the node has run (its runs are the entries of the task log, the newest
  first), its body has been invoked exactly once, whatever the number of runs; the
  first run (the last of the log) is that invocation and every later run is a cache
  hit; every run hands over the writes of the first one; and the writes every
  checkpoint holds for the node are those of the first invocation.
\<close>

theorem constant_cache_key_invoked_once:
  assumes "distinct (map node_name (graph_nodes g))"
    and "n \<in> set (graph_nodes g)"
    and "node_cache_key n = Some (\<lambda>input. '''')"
    and "s = run_steps k g (initial input)"
    and "runs = runs_of (node_name n) s"
    and "runs \<noteq> []"
  shows "count_of (calls s) (node_name n) = 1 \<and>
     count_of (cache_hits s) (node_name n) = length runs - 1 \<and>
     \<not> tr_cache_hit (last runs) \<and>
     list_all tr_cache_hit (butlast runs) \<and>
     list_all (\<lambda>r. tr_writes r = tr_writes (last runs)) runs \<and>
     list_all (\<lambda>c. case map_of (ck_writes c) (node_name n) of
                      None \<Rightarrow> True
                    | Some w \<Rightarrow> w = tr_writes (last runs)) (checkpoints s)"
proof -
  have "cache_inv (node_name n) s"
    unfolding assms(4) using assms(1-3) cache_inv_initial by (rule run_steps_cache_inv)
  with assms(5,6) obtain w where w: "map_of (cache s) (node_name n, '''') = Some w"
    and counts: "count_of (calls s) (node_name n) = 1"
      "Suc (count_of (cache_hits s) (node_name n)) = length runs"
    and hits: "\<not> tr_cache_hit (last runs)" "list_all tr_cache_hit (butlast runs)"
    and same: "list_all (\<lambda>r. tr_writes r = w) runs"
    and cks: "list_all (\<lambda>c. case map_of (ck_writes c) (node_name n) of
                      None \<Rightarrow> True
                    | Some w' \<Rightarrow> Some w = Some w') (checkpoints s)"
    by (auto simp: cache_inv_def split: option.splits cong: option.case_cong)
  from same assms(6) have first: "tr_writes (last runs) = w"
    by (simp add: list_all_iff)
  from cks have "list_all (\<lambda>c. case map_of (ck_writes c) (node_name n) of
                      None \<Rightarrow> True
                    | Some w' \<Rightarrow> w' = w) (checkpoints s)"
    by (simp add: list_all_iff split: option.splits)
  with counts hits same show ?thesis
    unfolding first by simp
qed

lemma call_count_runs:
  "map tr_cache_hit (runs_of ''add_two'' (call_count_run 11)) = [True, True, True, True, False]"
  by code_simp

lemma call_count_calls: "count_of (calls (call_count_run 11)) ''add_two'' = 1"
  by code_simp

text \<open>
  The graph of \<open>test_call_count\<close>: \<open>add_two\<close> runs in five supersteps and its body
  is invoked once.
\<close>

theorem constant_cache_key_invoked_once_witness:
  "distinct (map node_name (graph_nodes (test_graph key_empty))) \<and>
   add_two key_empty \<in> set (graph_nodes (test_graph key_empty)) \<and>
   node_cache_key (add_two key_empty) = Some (\<lambda>input. '''') \<and>
   length (runs_of ''add_two'' (call_count_run 11)) = 5 \<and>
   count_of (calls (call_count_run 11)) ''add_two'' = 1 \<and>
   count_of (cache_hits (call_count_run 11)) ''add_two'' = 4"
proof -
  have key: "key_empty = (\<lambda>input. '''')"
    by (simp add: fun_eq_iff key_empty_def)
  have names: "distinct (map node_name (graph_nodes (test_graph key_empty)))"
    by (simp add: test_graph_def add_two_def subtract_one_def)
  have node: "add_two key_empty \<in> set (graph_nodes (test_graph key_empty))"
    by (simp add: test_graph_def)
  have policy: "node_cache_key (add_two key_empty) = Some (\<lambda>input. '''')"
    by (simp add: add_two_def key)
  have name: "node_name (add_two key_empty) = ''add_two''"
    by (simp add: add_two_def)
  have runs: "length (runs_of ''add_two'' (call_count_run 11)) = 5"
    using arg_cong [OF call_count_runs, of length] by simp
  then have "runs_of (node_name (add_two key_empty)) (call_count_run 11) \<noteq> []"
    unfolding name by auto
  with constant_cache_key_invoked_once [OF names node policy call_count_run_def refl]
  have "count_of (calls (call_count_run 11)) ''add_two'' = 1 \<and>
      count_of (cache_hits (call_count_run 11)) ''add_two'' =
        length (runs_of ''add_two'' (call_count_run 11)) - 1"
    unfolding name by simp
  with names node policy runs show ?thesis
    by simp
qed

subsection \<open>The scenario of \<open>test_postgres\<close>\<close>

lemma postgres_first_step:
  "ck_writes (hd (checkpoints (postgres_run 1))) =
     [(''add_two'', [(''ra'', 2), (''to:subtract_one'', 0)])]"
  by code_simp

lemma postgres_second_step:
  "ck_writes (hd (checkpoints (postgres_run 2))) =
     [(''subtract_one'', [(''foo'', 3), (''ra'', 4), (''to:add_two'', 0)])]"
  by code_simp

lemma postgres_four_cycles:
  "map tr_node (task_log (postgres_run 8)) =
     [''subtract_one'', ''add_two'', ''subtract_one'', ''add_two'',
      ''subtract_one'', ''add_two'', ''subtract_one'', ''add_two'']"
  by code_simp

lemma postgres_foo_8: "value_of (channels (postgres_run 8)) ''foo'' = Some 9"
  by code_simp

lemma postgres_status_8: "status (postgres_run 8) = PLANNING"
  by code_simp

lemma postgres_status_9: "status (postgres_run 9) = PLANNING"
  by code_simp

lemma postgres_status_10: "status (postgres_run 10) = DONE"
  by code_simp

lemma postgres_five_cycles:
  "map tr_node (task_log (postgres_run 10)) =
     [''subtract_one'', ''add_two'', ''subtract_one'', ''add_two'', ''subtract_one'',
      ''add_two'', ''subtract_one'', ''add_two'', ''subtract_one'', ''add_two'']"
  by code_simp

lemma postgres_values_10:
  "map (value_of (channels (postgres_run 10))) state_keys = [Some 11, Some 1, Some 16]"
  by code_simp

lemma postgres_step_10: "step (postgres_run 10) = 10"
  by code_simp

lemma postgres_calls_10:
  "map (count_of (calls (postgres_run 10))) [''add_two'', ''subtract_one''] = [5, 5]"
  by code_simp

text \<open>The run of the scenario is its first ten turns.\<close>

lemma postgres_run_ends: "run (test_graph key_of_ra) test_input = postgres_run 10"
proof -
  have "run (test_graph key_of_ra) test_input = run_steps (16 + 10) (test_graph key_of_ra) (initial test_input)"
    by (simp add: run_def test_graph_def)
  also have "\<dots> = run_steps 16 (test_graph key_of_ra) (postgres_run 10)"
    unfolding postgres_run_def by (rule run_steps_add)
  also have "\<dots> = postgres_run 10"
    by (rule run_steps_idle) (simp add: postgres_status_10)
  finally show ?thesis .
qed

text \<open>
  C4, as the claim states it. After four full cycles of \<open>add_two\<close> and
  \<open>subtract_one\<close> (eight supersteps, each node has run four times) \<open>foo\<close> is 9, which
  is below 10, and the run is not DONE: it is still PLANNING.
\<close>

theorem four_cycles_counterexample:
  "map tr_node (task_log (postgres_run 8)) =
     [''subtract_one'', ''add_two'', ''subtract_one'', ''add_two'',
      ''subtract_one'', ''add_two'', ''subtract_one'', ''add_two''] \<and>
   value_of (channels (postgres_run 8)) ''foo'' = Some 9 \<and>
   status (postgres_run 8) \<noteq> DONE"
  by (simp add: postgres_four_cycles postgres_foo_8 postgres_status_8)

text \<open>
  C4, amended. The first superstep commits the write \<open>ra = 2\<close> of \<open>add_two\<close>, the
  second the writes \<open>foo = 3\<close> and \<open>ra = 4\<close> of \<open>subtract_one\<close>; the run is still
  PLANNING after nine supersteps and DONE after the tenth, that is after exactly five
  full cycles, each node body invoked five times; the run ends there, at step 10, with
  \<open>foo = 11\<close>, \<open>bar = 1\<close> and \<open>ra = 16\<close>.
\<close>

theorem postgres_scenario_five_cycles:
  "ck_writes (hd (checkpoints (postgres_run 1))) =
     [(''add_two'', [(''ra'', 2), (''to:subtract_one'', 0)])] \<and>
   ck_writes (hd (checkpoints (postgres_run 2))) =
     [(''subtract_one'', [(''foo'', 3), (''ra'', 4), (''to:add_two'', 0)])] \<and>
   status (postgres_run 9) = PLANNING \<and>
   status (postgres_run 10) = DONE \<and>
   run (test_graph key_of_ra) test_input = postgres_run 10 \<and>
   step (postgres_run 10) = 10 \<and>
   map tr_node (task_log (postgres_run 10)) =
     [''subtract_one'', ''add_two'', ''subtract_one'', ''add_two'', ''subtract_one'',
      ''add_two'', ''subtract_one'', ''add_two'', ''subtract_one'', ''add_two''] \<and>
   map (count_of (calls (postgres_run 10))) [''add_two'', ''subtract_one''] = [5, 5] \<and>
   map (value_of (channels (postgres_run 10))) state_keys = [Some 11, Some 1, Some 16]"
  by (simp only: postgres_first_step postgres_second_step postgres_status_9
      postgres_status_10 postgres_run_ends postgres_step_10 postgres_five_cycles
      postgres_calls_10 postgres_values_10 simp_thms)


end
